theory Spec2Isabelle
  imports Main "HOL-Library.AList"
begin

section \<open>JavaScript values and stored documents\<close>

text \<open>
  A JavaScript string is modelled as the list of its code points, so that reversing the
  list is the code point reversal of \<open>stringReverse\<close>. Property names and table names
  are ASCII and are modelled as HOL strings.
\<close>

type_synonym jsstring = "nat list"

text \<open>
  A row's \<open>data\<close> column holds a JSON document. Numbers stored by the dictionary layer
  (ids, sequence numbers, scores used as keys) are integers.
\<close>

datatype json =
    JNull
  | JBool bool
  | JNum int
  | JStr jsstring
  | JArr "json list"
  | JObj "(string \<times> json) list"

text \<open>A parsed document is the member list of a JSON object, in insertion order.\<close>

type_synonym document = "(string \<times> json) list"

text \<open>The value of a property read \<open>row.name\<close>: \<open>None\<close> is JavaScript's \<open>undefined\<close>.\<close>

type_synonym jsvalue = "json option"

definition get_prop :: "document \<Rightarrow> string \<Rightarrow> jsvalue" where
  "get_prop row name = map_of row name"

text \<open>JavaScript truthiness, as used by \<open>||\<close>, \<open>&&\<close> and the conditional operator.\<close>

fun truthy :: "jsvalue \<Rightarrow> bool" where
  "truthy None = False"
| "truthy (Some JNull) = False"
| "truthy (Some (JBool b)) = b"
| "truthy (Some (JNum n)) = (n \<noteq> 0)"
| "truthy (Some (JStr s)) = (s \<noteq> [])"
| "truthy (Some (JArr xs)) = True"
| "truthy (Some (JObj m)) = True"

text \<open>\<open>a || b\<close>\<close>

definition js_or :: "jsvalue \<Rightarrow> jsvalue \<Rightarrow> jsvalue" where
  "js_or a b = (if truthy a then a else b)"

text \<open>\<open>{...parsed, id: rowId}\<close>: the id replaces a member named id, or is appended.\<close>

definition with_id :: "document \<Rightarrow> int \<Rightarrow> document" where
  "with_id parsed rid = AList.update ''id'' (JNum rid) parsed"

text \<open>
  \<open>String.prototype.split\<close> with a separator of one code point: the pieces between the
  occurrences of the separator, empty pieces included.
\<close>

fun split_on :: "nat \<Rightarrow> jsstring \<Rightarrow> jsstring list" where
  "split_on sep [] = [[]]"
| "split_on sep (c # cs) =
     (if c = sep then [] # split_on sep cs
      else (case split_on sep cs of
              [] \<Rightarrow> [[c]]
            | p # ps \<Rightarrow> (c # p) # ps))"

text \<open>\<open>Array.prototype.join\<close> with a separator of one code point.\<close>

fun join_with :: "nat \<Rightarrow> jsstring list \<Rightarrow> jsstring" where
  "join_with sep [] = []"
| "join_with sep [p] = p"
| "join_with sep (p # q # ps) = p @ sep # join_with sep (q # ps)"

text \<open>The code point of the space character and of the percent sign.\<close>

definition SPACE :: nat where
  "SPACE = 32"

definition PERCENT :: nat where
  "PERCENT = 37"

section \<open>Term entries (dictionary-database.js)\<close>

datatype MatchType = Exact | Prefix | Suffix

datatype MatchSource = SourceTerm | SourceReading | SourceSequence

record TermEntry =
  te_index :: nat
  te_matchType :: MatchType
  te_matchSource :: MatchSource
  te_term :: jsvalue
  te_reading :: jsvalue
  te_definitionTags :: "jsstring list"
  te_termTags :: "jsstring list"
  te_rules :: "jsstring list"
  te_definitions :: jsvalue
  te_score :: jsvalue
  te_dictionary :: jsvalue
  te_id :: jsvalue
  te_sequence :: int

text \<open>
  \<open>_splitField(field)\<close>:
  \<open>typeof field === 'string' && field.length > 0 ? field.split(' ') : []\<close>
\<close>

fun splitField :: "jsvalue \<Rightarrow> jsstring list" where
  "splitField (Some (JStr s)) = (if length s > 0 then split_on SPACE s else [])"
| "splitField v = []"

text \<open>\<open>_createTerm(matchSource, matchType, row, index)\<close>\<close>

definition createTerm :: "MatchSource \<Rightarrow> MatchType \<Rightarrow> document \<Rightarrow> nat \<Rightarrow> TermEntry" where
  "createTerm matchSource matchType row index =
     (let sequence = get_prop row ''sequence'' in
      \<lparr> te_index = index,
        te_matchType = matchType,
        te_matchSource = matchSource,
        te_term = get_prop row ''expression'',
        te_reading = get_prop row ''reading'',
        te_definitionTags =
          splitField (js_or (get_prop row ''definitionTags'') (get_prop row ''tags'')),
        te_termTags = splitField (get_prop row ''termTags''),
        te_rules = splitField (get_prop row ''rules''),
        te_definitions = get_prop row ''glossary'',
        te_score = get_prop row ''score'',
        te_dictionary = get_prop row ''dictionary'',
        te_id = get_prop row ''id'',
        te_sequence = (case sequence of Some (JNum n) \<Rightarrow> n | _ \<Rightarrow> - 1) \<rparr>)"

text \<open>
  What the claims say of a tag field, in the spec's words: a value that is absent, not a
  string or the empty string gives the empty array; a non-empty string gives its pieces
  between single spaces (joining the pieces with a space gives the string back, and no
  piece holds a space).
\<close>

definition is_split_of :: "jsvalue \<Rightarrow> jsstring list \<Rightarrow> bool" where
  "is_split_of v pieces =
     (case v of
        Some (JStr s) \<Rightarrow>
          if s = [] then pieces = []
          else pieces \<noteq> [] \<and> join_with SPACE pieces = s \<and> list_all (\<lambda>p. SPACE \<notin> set p) pieces
      | _ \<Rightarrow> pieces = [])"

section \<open>The document store (database.js)\<close>

text \<open>
  The native SQLite host is outside the repository. Its tables are modelled as lists of
  rows in rowid order, each row an id and its document; a query is modelled by what SQLite
  answers to the statement text the code sends.
\<close>

datatype error =
    DatabaseAlreadyOpen
  | AlreadyOpening
  | NativeOpenFailed int
  | DatabaseNotOpen
  | DatabaseIsNotOpen
  | NoSuchTable string
  | UnknownMode jsvalue

record table =
  autoIncrement :: bool
  rows :: "(int \<times> document) list"

text \<open>The statements that write to the file, in the order the store executes them.\<close>

datatype statement =
    CreateTable string bool
  | CreateIndex string string string
  | SetUserVersion int
  | DeleteFrom string "int list"

record sqlite =
  user_version :: int
  tables :: "(string \<times> table) list"
  indices :: "(string \<times> string \<times> string) list"
  journal :: "statement list"

text \<open>The \<open>Database\<close> object, together with the file its name designates.\<close>

record Database =
  handle :: "int option"
  isOpening :: bool
  disk :: sqlite

text \<open>
  \<open>json_extract(data, '$.field') = ?\<close> and \<open>data->>'field' = ?\<close>: an absent or null
  member is SQL NULL and equals nothing; text equals text and a number equals a number.
  Index fields of the corpus are strings and numbers.
\<close>

fun sql_eq :: "jsvalue \<Rightarrow> json \<Rightarrow> bool" where
  "sql_eq (Some (JStr a)) (JStr b) = (a = b)"
| "sql_eq (Some (JNum a)) (JNum b) = (a = b)"
| "sql_eq v q = False"

text \<open>
  \<open>_execute\<close> of a \<open>SELECT ... FROM tableName WHERE cond\<close>: throws when the handle is
  null, and when SQLite reports that the table does not exist.
\<close>

definition execute_select ::
  "Database \<Rightarrow> string \<Rightarrow> (int \<times> document \<Rightarrow> bool) \<Rightarrow> error + (int \<times> document) list" where
  "execute_select db tableName cond =
     (if handle db = None then Inl DatabaseNotOpen
      else (case map_of (tables (disk db)) tableName of
              None \<Rightarrow> Inl (NoSuchTable tableName)
            | Some t \<Rightarrow> Inr (filter cond (rows t))))"

text \<open>\<open>_executeRaw\<close> of a \<open>DELETE FROM tableName WHERE cond\<close> on an existing table.\<close>

definition execute_delete :: "Database \<Rightarrow> string \<Rightarrow> (int \<times> document \<Rightarrow> bool) \<Rightarrow> Database" where
  "execute_delete db tableName cond =
     (case map_of (tables (disk db)) tableName of
        None \<Rightarrow> db
      | Some t \<Rightarrow>
          db\<lparr>disk := (disk db)
            \<lparr>tables := AList.update tableName (t\<lparr>rows := filter (\<lambda>r. \<not> cond r) (rows t)\<rparr>)
                         (tables (disk db)),
             journal := journal (disk db) @ [DeleteFrom tableName (map fst (filter cond (rows t)))]\<rparr>\<rparr>)"

subsection \<open>Schema migration\<close>

record StoreDefinition =
  primaryKey_autoIncrement :: bool
  store_indices :: "string list"

record StructureDefinition =
  version :: int
  stores :: "(string \<times> StoreDefinition) list"

text \<open>\<open>_tableExists\<close>\<close>

definition tableExists :: "sqlite \<Rightarrow> string \<Rightarrow> bool" where
  "tableExists f tableName = (map_of (tables f) tableName \<noteq> None)"

text \<open>\<open>_createTable\<close>: \<open>CREATE TABLE IF NOT EXISTS\<close>\<close>

definition createTable :: "sqlite \<Rightarrow> string \<Rightarrow> StoreDefinition \<Rightarrow> sqlite" where
  "createTable f tableName tableSchema =
     (let f' = f\<lparr>journal := journal f @ [CreateTable tableName (primaryKey_autoIncrement tableSchema)]\<rparr>
      in if tableExists f tableName then f'
         else f'\<lparr>tables := tables f @
                   [(tableName, \<lparr>autoIncrement = primaryKey_autoIncrement tableSchema, rows = []\<rparr>)]\<rparr>)"

text \<open>The name \<open>idx_${tableName}_${indexName}\<close>\<close>

definition index_name :: "string \<Rightarrow> string \<Rightarrow> string" where
  "index_name tableName indexName = ''idx_'' @ tableName @ ''_'' @ indexName"

text \<open>
  \<open>_createIndices\<close>: one \<open>CREATE INDEX IF NOT EXISTS\<close> for each declared index. The
  table exists when it runs: \<open>_createOrUpdateTable\<close> has created it.
\<close>

fun createIndices :: "sqlite \<Rightarrow> string \<Rightarrow> string list \<Rightarrow> sqlite" where
  "createIndices f tableName [] = f"
| "createIndices f tableName (indexName # rest) =
     (let f' = f\<lparr>journal := journal f @
                  [CreateIndex (index_name tableName indexName) tableName indexName]\<rparr>
      in createIndices
           (if map_of (indices f) (index_name tableName indexName) \<noteq> None then f'
            else f'\<lparr>indices := indices f @
                      [(index_name tableName indexName, tableName, indexName)]\<rparr>)
           tableName rest)"

text \<open>\<open>_createOrUpdateTable\<close>\<close>

definition createOrUpdateTable :: "sqlite \<Rightarrow> string \<Rightarrow> StoreDefinition \<Rightarrow> sqlite" where
  "createOrUpdateTable f tableName tableSchema =
     createIndices
       (if \<not> tableExists f tableName then createTable f tableName tableSchema else f)
       tableName (store_indices tableSchema)"

text \<open>\<open>_applySchemaChanges\<close>\<close>

fun applySchemaChanges :: "sqlite \<Rightarrow> (string \<times> StoreDefinition) list \<Rightarrow> sqlite" where
  "applySchemaChanges f [] = f"
| "applySchemaChanges f ((tableName, tableSchema) # rest) =
     applySchemaChanges (createOrUpdateTable f tableName tableSchema) rest"

text \<open>The loop of \<open>_performMigrations\<close> over the sorted structure.\<close>

fun migrate :: "int \<Rightarrow> int \<Rightarrow> StructureDefinition list \<Rightarrow> sqlite \<Rightarrow> sqlite" where
  "migrate currentVersion targetVersion [] f = f"
| "migrate currentVersion targetVersion (schema # rest) f =
     migrate currentVersion targetVersion rest
       (if version schema > currentVersion \<and> version schema \<le> targetVersion then
          (let f' = applySchemaChanges f (stores schema)
           in f'\<lparr>user_version := version schema,
                 journal := journal f' @ [SetUserVersion (version schema)]\<rparr>)
        else f)"

text \<open>\<open>_performMigrations\<close>: the sort is stable, as \<open>Array.prototype.sort\<close> is.\<close>

definition performMigrations :: "int \<Rightarrow> int \<Rightarrow> StructureDefinition list \<Rightarrow> sqlite \<Rightarrow> sqlite" where
  "performMigrations currentVersion targetVersion structure f =
     migrate currentVersion targetVersion (sort_key version structure) f"

text \<open>
  \<open>open(databaseName, version, structure)\<close>; \<open>nativeHandle\<close> is the handle the host
  returns for the name. The pragmas that set the journal mode and the check for
  \<open>jsonb\<close> do not touch the schema. No failure leaves a change behind.
\<close>

definition open_db :: "Database \<Rightarrow> int \<Rightarrow> int \<Rightarrow> StructureDefinition list \<Rightarrow> error + Database" where
  "open_db db nativeHandle targetVersion structure =
     (if handle db \<noteq> None then Inl DatabaseAlreadyOpen
      else if isOpening db then Inl AlreadyOpening
      else if nativeHandle \<le> 0 then Inl (NativeOpenFailed nativeHandle)
      else
        (let currentVersion = user_version (disk db)
         in Inr (db\<lparr>handle := Some nativeHandle,
                    isOpening := False,
                    disk := (if currentVersion < targetVersion
                             then performMigrations currentVersion targetVersion structure (disk db)
                             else disk db)\<rparr>)))"

text \<open>\<open>close()\<close>\<close>

definition close_db :: "Database \<Rightarrow> error + Database" where
  "close_db db =
     (if handle db = None then Inl DatabaseIsNotOpen
      else Inr (db\<lparr>handle := None\<rparr>))"

text \<open>\<open>isOpen()\<close>\<close>

definition isOpen :: "Database \<Rightarrow> bool" where
  "isOpen db = (handle db \<noteq> None)"

subsection \<open>Lookups\<close>

text \<open>The context \<open>{item, itemIndex, indexIndex}\<close> handed to \<open>createResult\<close>.\<close>

record 'item FindMultiBulkData =
  item :: 'item
  itemIndex :: nat
  indexIndex :: nat

text \<open>
  \<open>findMultiBulk\<close> issues one sub-query for each pair of an item and an index column.
  Every sub-query runs its \<open>SELECT\<close> and then, in one uninterrupted step, its loop
  over the rows. The pairs in the order in which the two nested \<open>map\<close> calls create them:
\<close>

definition subqueries :: "string list \<Rightarrow> 'item list \<Rightarrow> (string \<times> 'item FindMultiBulkData) list" where
  "subqueries indexColumns items =
     concat (map (\<lambda>(i, it).
               map (\<lambda>(j, indexName). (indexName, \<lparr>item = it, itemIndex = i, indexIndex = j\<rparr>))
                   (enumerate 0 indexColumns))
             (enumerate 0 items))"

text \<open>
  The rows one sub-query loops over:
  \<open>SELECT id, json(data) as value FROM t WHERE json_extract(data, '$.indexName') = ?\<close>
  with the parameter \<open>createQuery(item)\<close>, each row parsed and given its id.
\<close>

definition sub_rows ::
  "(int \<times> document) list \<Rightarrow> ('item \<Rightarrow> json) \<Rightarrow> string \<times> 'item FindMultiBulkData
     \<Rightarrow> ('item FindMultiBulkData \<times> document) list" where
  "sub_rows rs createQuery sq =
     map (\<lambda>r. (snd sq, with_id (snd r) (fst r)))
       (filter (\<lambda>r. sql_eq (get_prop (snd r) (fst sq)) (createQuery (item (snd sq)))) rs)"

text \<open>
  The body of the row loop: \<open>if (predicate(parsedRow, item)) results.push(createResult(parsedRow, data))\<close>.
  The predicate may keep state of its own (\<open>findTermsBulk\<close>'s visited set), which is
  threaded through; an exception of \<open>createResult\<close> rejects the whole call.
\<close>

fun scan_rows ::
  "('st \<Rightarrow> document \<Rightarrow> 'item \<Rightarrow> bool \<times> 'st) \<Rightarrow> (document \<Rightarrow> 'item FindMultiBulkData \<Rightarrow> error + 'res)
     \<Rightarrow> ('item FindMultiBulkData \<times> document) list \<Rightarrow> 'res list \<times> 'st \<Rightarrow> error + 'res list \<times> 'st" where
  "scan_rows predicate createResult [] acc = Inr acc"
| "scan_rows predicate createResult ((data, parsedRow) # rest) (results, st) =
     (case predicate st parsedRow (item data) of
        (True, st') \<Rightarrow>
          (case createResult parsedRow data of
             Inl e \<Rightarrow> Inl e
           | Inr r \<Rightarrow> scan_rows predicate createResult rest (results @ [r], st'))
      | (False, st') \<Rightarrow> scan_rows predicate createResult rest (results, st'))"

text \<open>
  \<open>findMultiBulk\<close> with the sub-queries completing in the order \<open>order\<close>. All the
  sub-queries read the same table, so they fail together or not at all.
\<close>

definition findMultiBulk_in ::
  "(string \<times> 'item FindMultiBulkData) list \<Rightarrow> Database \<Rightarrow> string \<Rightarrow> string list \<Rightarrow> 'item list
     \<Rightarrow> ('item \<Rightarrow> json) \<Rightarrow> ('st \<Rightarrow> document \<Rightarrow> 'item \<Rightarrow> bool \<times> 'st) \<Rightarrow> 'st
     \<Rightarrow> (document \<Rightarrow> 'item FindMultiBulkData \<Rightarrow> error + 'res) \<Rightarrow> error + 'res list" where
  "findMultiBulk_in order db tableName indexColumns items createQuery predicate st0 createResult =
     (if length items = 0 \<or> length indexColumns = 0 then Inr []
      else (case execute_select db tableName (\<lambda>r. True) of
              Inl e \<Rightarrow> Inl e
            | Inr rs \<Rightarrow>
                (case scan_rows predicate createResult
                        (concat (map (sub_rows rs createQuery) order)) ([], st0) of
                   Inl e \<Rightarrow> Inl e
                 | Inr (results, st) \<Rightarrow> Inr results)))"

text \<open>
  \<open>findMultiBulk\<close>: the host executes statements synchronously, so the continuations run
  in the order in which the sub-queries were created.
\<close>

definition findMultiBulk ::
  "Database \<Rightarrow> string \<Rightarrow> string list \<Rightarrow> 'item list
     \<Rightarrow> ('item \<Rightarrow> json) \<Rightarrow> ('st \<Rightarrow> document \<Rightarrow> 'item \<Rightarrow> bool \<times> 'st) \<Rightarrow> 'st
     \<Rightarrow> (document \<Rightarrow> 'item FindMultiBulkData \<Rightarrow> error + 'res) \<Rightarrow> error + 'res list" where
  "findMultiBulk db tableName indexColumns items =
     findMultiBulk_in (subqueries indexColumns items) db tableName indexColumns items"

text \<open>A predicate without state of its own.\<close>

definition stateless :: "(document \<Rightarrow> 'item \<Rightarrow> bool) \<Rightarrow> unit \<Rightarrow> document \<Rightarrow> 'item \<Rightarrow> bool \<times> unit" where
  "stateless p st row it = (p row it, st)"

text \<open>\<open>new Map(entries)\<close>: a later entry overwrites an earlier one with the same key.\<close>

definition new_Map :: "('k \<times> 'v) list \<Rightarrow> ('k \<times> 'v) list" where
  "new_Map entries = fold (\<lambda>kv m. AList.update (fst kv) (snd kv) m) entries []"

text \<open>
  \<open>findFirstBulk\<close>: one \<open>SELECT\<close> with an \<open>IN\<close> list over all built keys, a map from
  the index value of each returned row to the row, and one slot for each item.
\<close>

definition findFirstBulk ::
  "Database \<Rightarrow> string \<Rightarrow> string \<Rightarrow> 'item list \<Rightarrow> ('item \<Rightarrow> json) \<Rightarrow> (document \<Rightarrow> 'item \<Rightarrow> bool)
     \<Rightarrow> error + document option list" where
  "findFirstBulk db tableName indexColumns items createQuery predicate =
     (if length items = 0 then Inr []
      else
        (let queries = map createQuery items in
         case execute_select db tableName
                (\<lambda>r. list_ex (sql_eq (get_prop (snd r) indexColumns)) queries) of
           Inl e \<Rightarrow> Inl e
         | Inr rs \<Rightarrow>
             (let rowMap = new_Map (map (\<lambda>r. (get_prop (snd r) indexColumns, with_id (snd r) (fst r))) rs)
              in Inr (map (\<lambda>(it, query).
                            (case map_of rowMap (Some query) of
                               None \<Rightarrow> None
                             | Some row \<Rightarrow> if predicate row it then Some row else None))
                          (zip items queries)))))"

text \<open>
  \<open>find\<close>. The query may be written as a key range \<open>{lower: x, upper: x}\<close>, whose
  \<open>lower\<close> member is then the key.
\<close>

fun key_of_query :: "json \<Rightarrow> json" where
  "key_of_query (JObj m) = (case map_of m ''lower'' of Some v \<Rightarrow> v | None \<Rightarrow> JObj m)"
| "key_of_query q = q"

datatype 'd find_result = Found document | DefaultValue 'd

definition find_db ::
  "Database \<Rightarrow> string \<Rightarrow> string option \<Rightarrow> json \<Rightarrow> (document \<Rightarrow> 'p \<Rightarrow> bool) option \<Rightarrow> 'p \<Rightarrow> 'd
     \<Rightarrow> error + 'd find_result" where
  "find_db db tableName indexName query predicate predicateArg defaultValue =
     (if handle db = None then Inl DatabaseNotOpen
      else (case indexName of
              None \<Rightarrow> Inr (DefaultValue defaultValue)
            | Some ix \<Rightarrow>
                if length ix = 0 then Inr (DefaultValue defaultValue)
                else
                  (let q = key_of_query query in
                   case execute_select db tableName (\<lambda>r. sql_eq (get_prop (snd r) ix) q) of
                     Inl e \<Rightarrow> Inl e
                   | Inr rs \<Rightarrow>
                       (case take 1 rs of
                          [] \<Rightarrow> Inr (DefaultValue defaultValue)
                        | r # _ \<Rightarrow>
                            (let parsedData = snd r in
                             case predicate of
                               Some p \<Rightarrow>
                                 if p parsedData predicateArg then Inr (Found parsedData)
                                 else Inr (DefaultValue defaultValue)
                             | None \<Rightarrow> Inr (Found parsedData))))))"

subsection \<open>Counting\<close>

record CountOperation =
  op_table :: string
  op_column :: string
  op_query :: "jsstring option"

text \<open>
  One operation of \<open>bulkCount\<close>: \<open>op.query ? COUNT(*) WHERE data->>column = ? : COUNT(*)\<close>.
  The test is JavaScript truthiness of a string or null.
\<close>

definition count_one :: "Database \<Rightarrow> CountOperation \<Rightarrow> error + nat" where
  "count_one db operation =
     (case (case op_query operation of
              None \<Rightarrow> execute_select db (op_table operation) (\<lambda>r. True)
            | Some q \<Rightarrow>
                if truthy (Some (JStr q))
                then execute_select db (op_table operation)
                       (\<lambda>r. sql_eq (get_prop (snd r) (op_column operation)) (JStr q))
                else execute_select db (op_table operation) (\<lambda>r. True)) of
        Inl e \<Rightarrow> Inl e
      | Inr rs \<Rightarrow> Inr (length rs))"

text \<open>\<open>bulkCount\<close>: the counts in the order of the operations.\<close>

fun bulkCount :: "Database \<Rightarrow> CountOperation list \<Rightarrow> error + nat list" where
  "bulkCount db [] = Inr []"
| "bulkCount db (operation # rest) =
     (case count_one db operation of
        Inl e \<Rightarrow> Inl e
      | Inr n \<Rightarrow> (case bulkCount db rest of Inl e \<Rightarrow> Inl e | Inr ns \<Rightarrow> Inr (n # ns)))"

subsection \<open>Deleting\<close>

text \<open>\<open>if (onProgress) onProgress(completed, total)\<close>, the callback acting on its own state.\<close>

definition call_onProgress :: "('st \<Rightarrow> nat \<Rightarrow> nat \<Rightarrow> 'st) option \<Rightarrow> 'st \<Rightarrow> nat \<Rightarrow> nat \<Rightarrow> 'st" where
  "call_onProgress onProgress st completed totalCount =
     (case onProgress of None \<Rightarrow> st | Some f \<Rightarrow> f st completed totalCount)"

text \<open>
  \<open>bulkDelete\<close>. The two callbacks act on a state of the caller's. The only failures are
  those of the first query, before anything has changed. \<open>VACUUM\<close> changes no row.
\<close>

definition bulkDelete ::
  "Database \<Rightarrow> string \<Rightarrow> string option \<Rightarrow> json \<Rightarrow> ('st \<Rightarrow> int list \<Rightarrow> int list \<times> 'st) option
     \<Rightarrow> ('st \<Rightarrow> nat \<Rightarrow> nat \<Rightarrow> 'st) option \<Rightarrow> 'st \<Rightarrow> error + Database \<times> 'st" where
  "bulkDelete db tableName indexName query filterKeys onProgress st =
     (if handle db = None then Inl DatabaseNotOpen
      else (case indexName of
              None \<Rightarrow> Inr (db, st)
            | Some ix \<Rightarrow>
                if length ix = 0 then Inr (db, st)
                else
                  (case execute_select db tableName (\<lambda>r. sql_eq (get_prop (snd r) ix) query) of
                     Inl e \<Rightarrow> Inl e
                   | Inr matched \<Rightarrow>
                       (let totalCount = length matched in
                        if totalCount = 0 then Inr (db, call_onProgress onProgress st 0 0)
                        else
                          (case filterKeys of
                             Some fk \<Rightarrow>
                               (let keys = map fst matched;
                                    (filteredKeys, st1) = fk st keys
                                in if length filteredKeys = 0
                                   then Inr (db, call_onProgress onProgress st1 0 totalCount)
                                   else Inr (execute_delete db tableName (\<lambda>r. fst r \<in> set filteredKeys),
                                             call_onProgress onProgress st1 (length filteredKeys) totalCount))
                           | None \<Rightarrow>
                               Inr (execute_delete db tableName (\<lambda>r. sql_eq (get_prop (snd r) ix) query),
                                    call_onProgress onProgress st totalCount totalCount))))))"

text \<open>The versions that the \<open>PRAGMA user_version = n\<close> statements of a journal set, in order.\<close>

fun versions_set :: "statement list \<Rightarrow> int list" where
  "versions_set [] = []"
| "versions_set (SetUserVersion n # J) = n # versions_set J"
| "versions_set (s # J) = versions_set J"

text \<open>A store that has never been opened: no connection and an empty file.\<close>

definition new_db :: Database where
  "new_db =
     \<lparr>handle = None, isOpening = False,
      disk = \<lparr>user_version = 0, tables = [], indices = [], journal = []\<rparr>\<rparr>"

section \<open>The dictionary database (dictionary-database.js)\<close>

text \<open>An ASCII literal as a JavaScript string.\<close>

definition ascii :: "string \<Rightarrow> jsstring" where
  "ascii s = map of_char s"

text \<open>
  Modelled from the spec: \<open>stringReverse\<close> of core/utilities.js is not among the
  sources; the spec says it reverses the string's code points.
\<close>

definition stringReverse :: "jsstring \<Rightarrow> jsstring" where
  "stringReverse s = rev s"

text \<open>The schema passed to \<open>open\<close> by \<open>prepare\<close>, and \<open>prepare\<close> itself.\<close>

definition upgrade :: "StructureDefinition list" where
  "upgrade =
     [\<lparr>version = 20,
       stores =
         [(''terms'', \<lparr>primaryKey_autoIncrement = True,
                       store_indices = [''dictionary'', ''expression'', ''reading'']\<rparr>),
          (''kanji'', \<lparr>primaryKey_autoIncrement = True,
                       store_indices = [''dictionary'', ''character'']\<rparr>),
          (''tagMeta'', \<lparr>primaryKey_autoIncrement = True, store_indices = [''dictionary'']\<rparr>),
          (''dictionaries'', \<lparr>primaryKey_autoIncrement = True,
                              store_indices = [''title'', ''version'']\<rparr>)]\<rparr>,
      \<lparr>version = 30,
       stores =
         [(''termMeta'', \<lparr>primaryKey_autoIncrement = True,
                          store_indices = [''dictionary'', ''expression'']\<rparr>),
          (''kanjiMeta'', \<lparr>primaryKey_autoIncrement = True,
                           store_indices = [''dictionary'', ''character'']\<rparr>),
          (''tagMeta'', \<lparr>primaryKey_autoIncrement = True,
                         store_indices = [''dictionary'', ''name'']\<rparr>)]\<rparr>,
      \<lparr>version = 40,
       stores =
         [(''terms'', \<lparr>primaryKey_autoIncrement = True,
                       store_indices = [''dictionary'', ''expression'', ''reading'', ''sequence'']\<rparr>)]\<rparr>,
      \<lparr>version = 50,
       stores =
         [(''terms'', \<lparr>primaryKey_autoIncrement = True,
                       store_indices = [''dictionary'', ''expression'', ''reading'', ''sequence'',
                                        ''expressionReverse'', ''readingReverse'']\<rparr>)]\<rparr>,
      \<lparr>version = 60,
       stores =
         [(''media'', \<lparr>primaryKey_autoIncrement = True,
                       store_indices = [''dictionary'', ''path'']\<rparr>)]\<rparr>]"

definition prepare :: "Database \<Rightarrow> int \<Rightarrow> error + Database" where
  "prepare db nativeHandle = open_db db nativeHandle 60 upgrade"

subsection \<open>Term lookups\<close>

text \<open>\<open>dictionaries.has(row.dictionary)\<close> for a set of dictionary names.\<close>

definition has_dictionary :: "jsstring set \<Rightarrow> jsvalue \<Rightarrow> bool" where
  "has_dictionary dictionaries v = (case v of Some (JStr s) \<Rightarrow> s \<in> dictionaries | _ \<Rightarrow> False)"

text \<open>\<open>_createOnlyQuery1\<close>, \<open>_createBoundQuery1\<close> and \<open>_createBoundQuery2\<close>\<close>

definition createOnlyQuery1 :: "jsstring \<Rightarrow> json" where
  "createOnlyQuery1 it = JStr it"

definition createBoundQuery1 :: "jsstring \<Rightarrow> json" where
  "createBoundQuery1 it = JStr (it @ [PERCENT])"

definition createBoundQuery2 :: "jsstring \<Rightarrow> json" where
  "createBoundQuery2 it = (let reversedItem = stringReverse it in JStr (reversedItem @ [PERCENT]))"

text \<open>\<open>_createTermGeneric\<close>\<close>

definition createTermGeneric :: "MatchType \<Rightarrow> document \<Rightarrow> jsstring FindMultiBulkData \<Rightarrow> TermEntry" where
  "createTermGeneric matchType row data =
     (let matchSourceIsTerm = (indexIndex data = 0);
          matchSource = (if matchSourceIsTerm then SourceTerm else SourceReading);
          matchType' =
            (if (if matchSourceIsTerm then get_prop row ''expression'' else get_prop row ''reading'')
                  = Some (JStr (item data))
             then Exact else matchType)
      in createTerm matchSource matchType' row (itemIndex data))"

text \<open>
  The predicate of \<open>findTermsBulk\<close>, with its set \<open>visited\<close> of the ids seen so far
  (in the order in which they were added).
\<close>

definition termsPredicate :: "jsstring set \<Rightarrow> jsvalue list \<Rightarrow> document \<Rightarrow> jsstring \<Rightarrow> bool \<times> jsvalue list" where
  "termsPredicate dictionaries visited row it =
     (if \<not> has_dictionary dictionaries (get_prop row ''dictionary'') then (False, visited)
      else
        (let rid = get_prop row ''id'' in
         if rid \<in> set visited then (False, visited)
         else (True, visited @ [rid])))"

definition terms_indexNames :: "MatchType \<Rightarrow> string list" where
  "terms_indexNames matchType =
     (if matchType = Suffix then [''expressionReverse'', ''readingReverse'']
      else [''expression'', ''reading''])"

definition terms_createQuery :: "MatchType \<Rightarrow> jsstring \<Rightarrow> json" where
  "terms_createQuery matchType =
     (case matchType of
        Prefix \<Rightarrow> createBoundQuery1
      | Suffix \<Rightarrow> createBoundQuery2
      | Exact \<Rightarrow> createOnlyQuery1)"

text \<open>\<open>findTermsBulk\<close> with the sub-queries completing in a given order, and as it runs.\<close>

definition findTermsBulk_in ::
  "(string \<times> jsstring FindMultiBulkData) list \<Rightarrow> Database \<Rightarrow> jsstring list \<Rightarrow> jsstring set
     \<Rightarrow> MatchType \<Rightarrow> error + TermEntry list" where
  "findTermsBulk_in order db termList dictionaries matchType =
     findMultiBulk_in order db ''terms'' (terms_indexNames matchType) termList
       (terms_createQuery matchType) (termsPredicate dictionaries) []
       (\<lambda>row data. Inr (createTermGeneric matchType row data))"

definition findTermsBulk ::
  "Database \<Rightarrow> jsstring list \<Rightarrow> jsstring set \<Rightarrow> MatchType \<Rightarrow> error + TermEntry list" where
  "findTermsBulk db termList dictionaries matchType =
     findMultiBulk db ''terms'' (terms_indexNames matchType) termList
       (terms_createQuery matchType) (termsPredicate dictionaries) []
       (\<lambda>row data. Inr (createTermGeneric matchType row data))"

text \<open>
  What is said of the entries \<open>es\<close> that a lookup returns from the rows \<open>rs\<close> when its
  sub-queries complete in the order \<open>order\<close>. A row is matched when one of the input
  terms gives, on one of the index fields, the key of the row; its first observed match is
  the first sub-query of the order that returns it. No two entries have the same id; a
  stored row has an entry exactly when it is matched and its dictionary is enabled; and
  every entry is that of a stored row, built at the row's first observed match, which is
  the sub-query of an input term and an index field.
\<close>

definition matched_by :: "MatchType \<Rightarrow> jsstring list \<Rightarrow> document \<Rightarrow> bool" where
  "matched_by matchType termList doc =
     (\<exists>it\<in>set termList. \<exists>indexName\<in>set (terms_indexNames matchType).
         sql_eq (get_prop doc indexName) (terms_createQuery matchType it))"

definition first_match ::
  "MatchType \<Rightarrow> (string \<times> jsstring FindMultiBulkData) list \<Rightarrow> document
     \<Rightarrow> (string \<times> jsstring FindMultiBulkData) option" where
  "first_match matchType order doc =
     find (\<lambda>sq. sql_eq (get_prop doc (fst sq)) (terms_createQuery matchType (item (snd sq)))) order"

definition each_row_once ::
  "(int \<times> document) list \<Rightarrow> jsstring list \<Rightarrow> jsstring set \<Rightarrow> MatchType
     \<Rightarrow> (string \<times> jsstring FindMultiBulkData) list \<Rightarrow> TermEntry list \<Rightarrow> bool" where
  "each_row_once rs termList dictionaries matchType order es =
     (distinct (map te_id es)
      \<and> (\<forall>r\<in>set rs.
            (Some (JNum (fst r)) \<in> te_id ` set es)
              = (has_dictionary dictionaries (get_prop (snd r) ''dictionary'')
                 \<and> matched_by matchType termList (snd r)))
      \<and> (\<forall>e\<in>set es. \<exists>r\<in>set rs.
            (case first_match matchType order (snd r) of
               None \<Rightarrow> False
             | Some sq \<Rightarrow>
                 e = createTermGeneric matchType (with_id (snd r) (fst r)) (snd sq)
                 \<and> itemIndex (snd sq) < length termList
                 \<and> item (snd sq) = termList ! itemIndex (snd sq)
                 \<and> indexIndex (snd sq) < length (terms_indexNames matchType)
                 \<and> fst sq = terms_indexNames matchType ! indexIndex (snd sq))))"

record TermExactRequest =
  req_term :: jsstring
  req_reading :: jsstring

record DictionaryAndQueryRequest =
  req_query :: json
  req_dictionary :: jsstring

text \<open>\<open>findTermsExactBulk\<close>\<close>

definition findTermsExactBulk ::
  "Database \<Rightarrow> TermExactRequest list \<Rightarrow> jsstring set \<Rightarrow> error + TermEntry list" where
  "findTermsExactBulk db termList dictionaries =
     findMultiBulk db ''terms'' [''expression''] termList (\<lambda>it. JStr (req_term it))
       (stateless (\<lambda>row it. get_prop row ''reading'' = Some (JStr (req_reading it))
                          \<and> has_dictionary dictionaries (get_prop row ''dictionary''))) ()
       (\<lambda>row data. Inr (createTerm SourceTerm Exact row (itemIndex data)))"

text \<open>\<open>findTermsBySequenceBulk\<close>\<close>

definition findTermsBySequenceBulk ::
  "Database \<Rightarrow> DictionaryAndQueryRequest list \<Rightarrow> error + TermEntry list" where
  "findTermsBySequenceBulk db items =
     findMultiBulk db ''terms'' [''sequence''] items req_query
       (stateless (\<lambda>row it. get_prop row ''dictionary'' = Some (JStr (req_dictionary it)))) ()
       (\<lambda>row data. Inr (createTerm SourceSequence Exact row (itemIndex data)))"

subsection \<open>Meta lookups\<close>

record TermMeta =
  tm_index :: nat
  tm_term :: jsvalue
  tm_mode :: jsvalue
  tm_data :: jsvalue
  tm_dictionary :: jsvalue

record KanjiMeta =
  km_index :: nat
  km_character :: jsvalue
  km_mode :: jsvalue
  km_data :: jsvalue
  km_dictionary :: jsvalue

text \<open>\<open>_createTermMeta\<close>: the \<open>switch\<close> over the mode, whose default case throws.\<close>

definition createTermMeta :: "document \<Rightarrow> jsstring FindMultiBulkData \<Rightarrow> error + TermMeta" where
  "createTermMeta row data =
     (let entry = \<lparr>tm_index = itemIndex data, tm_term = get_prop row ''expression'',
                   tm_mode = get_prop row ''mode'', tm_data = get_prop row ''data'',
                   tm_dictionary = get_prop row ''dictionary''\<rparr>;
          mode = get_prop row ''mode''
      in if mode = Some (JStr (ascii ''freq'')) then Inr entry
         else if mode = Some (JStr (ascii ''pitch'')) then Inr entry
         else if mode = Some (JStr (ascii ''ipa'')) then Inr entry
         else Inl (UnknownMode mode))"

text \<open>\<open>_createKanjiMeta\<close>\<close>

definition createKanjiMeta :: "document \<Rightarrow> jsstring FindMultiBulkData \<Rightarrow> error + KanjiMeta" where
  "createKanjiMeta row data =
     Inr \<lparr>km_index = itemIndex data, km_character = get_prop row ''character'',
          km_mode = get_prop row ''mode'', km_data = get_prop row ''data'',
          km_dictionary = get_prop row ''dictionary''\<rparr>"

text \<open>\<open>findTermMetaBulk\<close> and \<open>findKanjiMetaBulk\<close>\<close>

definition findTermMetaBulk :: "Database \<Rightarrow> jsstring list \<Rightarrow> jsstring set \<Rightarrow> error + TermMeta list" where
  "findTermMetaBulk db termList dictionaries =
     findMultiBulk db ''termMeta'' [''expression''] termList createOnlyQuery1
       (stateless (\<lambda>row it. has_dictionary dictionaries (get_prop row ''dictionary''))) ()
       createTermMeta"

definition findKanjiMetaBulk :: "Database \<Rightarrow> jsstring list \<Rightarrow> jsstring set \<Rightarrow> error + KanjiMeta list" where
  "findKanjiMetaBulk db kanjiList dictionaries =
     findMultiBulk db ''kanjiMeta'' [''character''] kanjiList createOnlyQuery1
       (stateless (\<lambda>row it. has_dictionary dictionaries (get_prop row ''dictionary''))) ()
       createKanjiMeta"

text \<open>The closed set of modes of a meta row, as the spec states it.\<close>

definition known_modes :: "jsvalue set" where
  "known_modes = {Some (JStr (ascii ''freq'')), Some (JStr (ascii ''pitch'')), Some (JStr (ascii ''ipa''))}"

text \<open>\<open>findTagMetaBulk\<close>\<close>

definition findTagMetaBulk :: "Database \<Rightarrow> DictionaryAndQueryRequest list \<Rightarrow> error + document option list" where
  "findTagMetaBulk db items =
     findFirstBulk db ''tagMeta'' ''name'' items req_query
       (\<lambda>row it. get_prop row ''dictionary'' = Some (JStr (req_dictionary it)))"

subsection \<open>Deleting a dictionary\<close>

record DeleteDictionaryProgressData =
  count :: nat
  processed :: nat
  storeCount :: nat
  storesProcesed :: nat

definition targetGroups :: "(string \<times> string) list list" where
  "targetGroups =
     [[(''kanji'', ''dictionary''),
       (''kanjiMeta'', ''dictionary''),
       (''terms'', ''dictionary''),
       (''termMeta'', ''dictionary''),
       (''tagMeta'', ''dictionary''),
       (''media'', ''dictionary'')],
      [(''dictionaries'', ''title'')]]"

text \<open>
  The two callbacks that \<open>deleteDictionary\<close> hands to \<open>bulkDelete\<close>, as they act on
  \<open>progressData\<close>. The progress messages they send to the host are not modelled.
\<close>

definition dd_filterKeys ::
  "DeleteDictionaryProgressData \<Rightarrow> int list \<Rightarrow> int list \<times> DeleteDictionaryProgressData" where
  "dd_filterKeys progressData keys =
     (keys, progressData\<lparr>storesProcesed := storesProcesed progressData + 1,
                         count := count progressData + length keys\<rparr>)"

definition onProgressWrapper ::
  "DeleteDictionaryProgressData \<Rightarrow> nat \<Rightarrow> nat \<Rightarrow> DeleteDictionaryProgressData" where
  "onProgressWrapper progressData completed totalCount =
     progressData\<lparr>processed := processed progressData + 1\<rparr>"

text \<open>
  One group of targets: the deletions of a group act on different tables, and
  \<open>Promise.all(promises).catch(console.error)\<close> logs the first failure of the group and
  goes on. The state is the store, \<open>progressData\<close> and the errors logged.
\<close>

fun delete_targets ::
  "jsstring \<Rightarrow> (string \<times> string) list \<Rightarrow> Database \<times> DeleteDictionaryProgressData \<times> error list
     \<Rightarrow> Database \<times> DeleteDictionaryProgressData \<times> error list" where
  "delete_targets dictionaryName [] acc = acc"
| "delete_targets dictionaryName ((objectStoreName, indexName) # rest) (db, progressData, failures) =
     (case bulkDelete db objectStoreName (Some indexName) (JStr dictionaryName)
             (Some dd_filterKeys) (Some onProgressWrapper) progressData of
        Inl e \<Rightarrow> delete_targets dictionaryName rest (db, progressData, failures @ [e])
      | Inr (db', progressData') \<Rightarrow> delete_targets dictionaryName rest (db', progressData', failures))"

fun delete_groups ::
  "jsstring \<Rightarrow> (string \<times> string) list list \<Rightarrow> Database \<times> DeleteDictionaryProgressData \<times> error list
     \<Rightarrow> Database \<times> DeleteDictionaryProgressData \<times> error list" where
  "delete_groups dictionaryName [] acc = acc"
| "delete_groups dictionaryName (targets # rest) (db, progressData, logged) =
     (case delete_targets dictionaryName targets (db, progressData, []) of
        (db', progressData', failures) \<Rightarrow>
          delete_groups dictionaryName rest (db', progressData', logged @ take 1 failures))"

text \<open>
  \<open>deleteDictionary\<close>: it returns nothing; the result here is the store afterwards, the
  final \<open>progressData\<close> and what was logged to the console.

  The calls of one group are started together and run concurrently, each on a table of its
  own, and each executes at most one \<open>DELETE\<close>; the next group is started when
  \<open>Promise.all\<close> of the group has settled. \<open>deleteDictionary_in\<close> takes, for each
  group, the order in which its calls get to run; \<open>deleteDictionary\<close> is the order in
  which they were created.
\<close>

definition deleteDictionary_in ::
  "(string \<times> string) list list \<Rightarrow> Database \<Rightarrow> jsstring \<Rightarrow> nat
     \<Rightarrow> Database \<times> DeleteDictionaryProgressData \<times> error list" where
  "deleteDictionary_in orders db dictionaryName progressRate =
     (let storeCount = sum_list (map length targetGroups);
          progressData = \<lparr>count = 0, processed = 0, storeCount = storeCount, storesProcesed = 0\<rparr>
      in delete_groups dictionaryName orders (db, progressData, []))"

definition deleteDictionary ::
  "Database \<Rightarrow> jsstring \<Rightarrow> nat \<Rightarrow> Database \<times> DeleteDictionaryProgressData \<times> error list" where
  "deleteDictionary db dictionaryName progressRate =
     deleteDictionary_in targetGroups db dictionaryName progressRate"

text \<open>
  No row of the table has the field equal to the string (a table that does not exist has
  no row).
\<close>

definition no_rows_with :: "Database \<Rightarrow> string \<Rightarrow> string \<Rightarrow> jsstring \<Rightarrow> bool" where
  "no_rows_with db tableName fieldName v =
     (case map_of (tables (disk db)) tableName of
        None \<Rightarrow> True
      | Some t \<Rightarrow> list_all (\<lambda>r. get_prop (snd r) fieldName \<noteq> Some (JStr v)) (rows t))"

text \<open>
  Between two states of the store, the rows of a target table whose index field equals the
  name are gone and, the ids of the table being distinct, all its other rows are kept in
  their order.
\<close>

definition rows_deleted :: "Database \<Rightarrow> Database \<Rightarrow> jsstring \<Rightarrow> string \<times> string \<Rightarrow> bool" where
  "rows_deleted db db' name tg =
     (\<exists>t t'. map_of (tables (disk db)) (fst tg) = Some t
         \<and> map_of (tables (disk db')) (fst tg) = Some t'
         \<and> list_all (\<lambda>r. get_prop (snd r) (snd tg) \<noteq> Some (JStr name)) (rows t')
         \<and> set (rows t') \<subseteq> set (rows t)
         \<and> (distinct (map fst (rows t))
              \<longrightarrow> rows t' = filter (\<lambda>r. get_prop (snd r) (snd tg) \<noteq> Some (JStr name)) (rows t)))"

text \<open>
  What is said of a call of \<open>deleteDictionary\<close> on the store \<open>db\<close> with the result
  \<open>(db', progressData, logged)\<close>: nothing was logged; no row of a content table has the
  dictionary \<open>name\<close> and no row of dictionaries has the title \<open>name\<close>; the other rows
  are kept; and the statements executed are deletions from content tables followed by
  deletions from dictionaries.
\<close>

definition dictionary_deleted ::
  "Database \<Rightarrow> jsstring \<Rightarrow> Database \<times> DeleteDictionaryProgressData \<times> error list \<Rightarrow> bool" where
  "dictionary_deleted db name result =
     (case result of
        (db', progressData, logged) \<Rightarrow>
          logged = []
          \<and> list_all (\<lambda>tn. no_rows_with db' tn ''dictionary'' name)
               [''kanji'', ''kanjiMeta'', ''terms'', ''termMeta'', ''tagMeta'', ''media'']
          \<and> no_rows_with db' ''dictionaries'' ''title'' name
          \<and> list_all (rows_deleted db db' name) (concat targetGroups)
          \<and> (\<exists>J1 J2. journal (disk db') = journal (disk db) @ J1 @ J2
                \<and> list_all (\<lambda>s. \<exists>tn ids. s = DeleteFrom tn ids
                                  \<and> tn \<in> set [''kanji'', ''kanjiMeta'', ''terms'', ''termMeta'',
                                               ''tagMeta'', ''media'']) J1
                \<and> list_all (\<lambda>s. \<exists>ids. s = DeleteFrom ''dictionaries'' ids) J2))"

subsection \<open>Counts\<close>

record DictionaryCounts =
  dc_total :: "(string \<times> nat option) list option"
  dc_counts :: "(string \<times> nat option) list list"

text \<open>The \<open>tables\<close> array of \<open>getDictionaryCounts\<close>: name and column.\<close>

definition count_tables :: "(string \<times> string) list" where
  "count_tables =
     [(''kanji'', ''dictionary''),
      (''kanjiMeta'', ''dictionary''),
      (''terms'', ''dictionary''),
      (''termMeta'', ''dictionary''),
      (''tagMeta'', ''dictionary''),
      (''media'', ''dictionary'')]"

text \<open>\<open>rawCounts[i]\<close>, undefined beyond the end.\<close>

definition at_index :: "'a list \<Rightarrow> nat \<Rightarrow> 'a option" where
  "at_index xs i = (if i < length xs then Some (xs ! i) else None)"

text \<open>\<open>tables.forEach(table => { group[table.name] = rawCounts[resultIndex++]; })\<close>\<close>

fun fill_group ::
  "nat list \<Rightarrow> (string \<times> string) list \<Rightarrow> (string \<times> nat option) list \<times> nat
     \<Rightarrow> (string \<times> nat option) list \<times> nat" where
  "fill_group rawCounts [] acc = acc"
| "fill_group rawCounts (t # rest) (countGroup, resultIndex) =
     fill_group rawCounts rest
       (AList.update (fst t) (at_index rawCounts resultIndex) countGroup, Suc resultIndex)"

text \<open>The loop over \<open>dictionaryNames\<close> that pushes one group for each name.\<close>

fun fill_counts ::
  "nat list \<Rightarrow> jsstring list \<Rightarrow> (string \<times> nat option) list list \<times> nat
     \<Rightarrow> (string \<times> nat option) list list \<times> nat" where
  "fill_counts rawCounts [] acc = acc"
| "fill_counts rawCounts (name # rest) (groups, resultIndex) =
     (case fill_group rawCounts count_tables ([], resultIndex) of
        (countGroup, resultIndex') \<Rightarrow> fill_counts rawCounts rest (groups @ [countGroup], resultIndex'))"

text \<open>\<open>getDictionaryCounts\<close>\<close>

definition getDictionaryCounts :: "Database \<Rightarrow> jsstring list \<Rightarrow> bool \<Rightarrow> error + DictionaryCounts" where
  "getDictionaryCounts db dictionaryNames getTotal =
     (let countOperations =
            (if getTotal
             then map (\<lambda>t. \<lparr>op_table = fst t, op_column = snd t, op_query = None\<rparr>) count_tables
             else [])
            @ concat (map (\<lambda>name.
                        map (\<lambda>t. \<lparr>op_table = fst t, op_column = snd t, op_query = Some name\<rparr>)
                            count_tables)
                      dictionaryNames)
      in case bulkCount db countOperations of
           Inl e \<Rightarrow> Inl e
         | Inr rawCounts \<Rightarrow>
             (let (total, resultIndex) =
                    (if getTotal
                     then (case fill_group rawCounts count_tables ([], 0) of
                             (countGroup, i) \<Rightarrow> (Some countGroup, i))
                     else (None, 0))
              in Inr \<lparr>dc_total = total,
                      dc_counts = fst (fill_counts rawCounts dictionaryNames ([], resultIndex))\<rparr>))"

text \<open>
  The rows of a table (none when the table does not exist), and the number of them whose
  column equals a name, as the spec counts them.
\<close>

definition table_rows :: "Database \<Rightarrow> string \<Rightarrow> (int \<times> document) list" where
  "table_rows db tableName =
     (case map_of (tables (disk db)) tableName of None \<Rightarrow> [] | Some t \<Rightarrow> rows t)"

definition count_rows :: "Database \<Rightarrow> string \<Rightarrow> string \<Rightarrow> jsstring \<Rightarrow> nat" where
  "count_rows db tableName column name =
     length (filter (\<lambda>r. get_prop (snd r) column = Some (JStr name)) (table_rows db tableName))"

section \<open>A sample store\<close>

text \<open>
  A small store on which the properties below are exercised: two dictionaries \<open>A\<close> and
  \<open>B\<close>; the strings are written as code points.
\<close>

definition dictA :: jsstring where
  "dictA = [65]"

definition dictB :: jsstring where
  "dictB = [66]"

definition neko :: jsstring where
  "neko = [12397, 12371]"

definition kononeko :: jsstring where
  "kononeko = [12371, 12398, 12397, 12371]"

definition sample_terms :: "(int \<times> document) list" where
  "sample_terms =
     [(1, [(''dictionary'', JStr dictA),
           (''expression'', JStr kononeko), (''reading'', JStr kononeko),
           (''expressionReverse'', JStr (rev kononeko)), (''readingReverse'', JStr (rev kononeko)),
           (''termTags'', JStr [110, 32, 118]), (''tags'', JStr [110]),
           (''rules'', JStr []), (''sequence'', JNum 7)]),
      (2, [(''dictionary'', JStr dictB),
           (''expression'', JStr neko), (''reading'', JStr neko),
           (''expressionReverse'', JStr (rev neko)), (''readingReverse'', JStr (rev neko)),
           (''definitionTags'', JStr [120]), (''rules'', JNum 5)])]"

definition sample_tagMeta :: "(int \<times> document) list" where
  "sample_tagMeta =
     [(1, [(''name'', JStr [110]), (''dictionary'', JStr dictA)]),
      (2, [(''name'', JStr [110]), (''dictionary'', JStr dictB)])]"

definition sample_termMeta :: "(int \<times> document) list" where
  "sample_termMeta =
     [(1, [(''expression'', JStr neko), (''mode'', JStr (ascii ''freq'')), (''data'', JNum 3),
           (''dictionary'', JStr dictA)]),
      (2, [(''expression'', JStr kononeko), (''mode'', JStr (ascii ''tone'')), (''data'', JNum 1),
           (''dictionary'', JStr dictA)])]"

definition sample_kanjiMeta :: "(int \<times> document) list" where
  "sample_kanjiMeta =
     [(1, [(''character'', JStr [29483]), (''mode'', JStr (ascii ''tone'')), (''data'', JNum 1),
           (''dictionary'', JStr dictA)])]"

definition sample_dictionaries :: "(int \<times> document) list" where
  "sample_dictionaries =
     [(1, [(''title'', JStr dictA), (''version'', JNum 3)]),
      (2, [(''title'', JStr dictB), (''version'', JNum 3)])]"

definition sample_tables :: "(string \<times> table) list" where
  "sample_tables =
     [(''terms'', \<lparr>autoIncrement = True, rows = sample_terms\<rparr>),
      (''kanji'', \<lparr>autoIncrement = True, rows = []\<rparr>),
      (''tagMeta'', \<lparr>autoIncrement = True, rows = sample_tagMeta\<rparr>),
      (''dictionaries'', \<lparr>autoIncrement = True, rows = sample_dictionaries\<rparr>),
      (''termMeta'', \<lparr>autoIncrement = True, rows = sample_termMeta\<rparr>),
      (''kanjiMeta'', \<lparr>autoIncrement = True, rows = sample_kanjiMeta\<rparr>),
      (''media'', \<lparr>autoIncrement = True, rows = []\<rparr>)]"

definition sample_db :: Database where
  "sample_db =
     \<lparr>handle = Some 1, isOpening = False,
      disk = \<lparr>user_version = 60, tables = sample_tables, indices = [], journal = []\<rparr>\<rparr>"

text \<open>
  An \<open>onProgress\<close> callback that records its invocations, and a \<open>filterKeys\<close> callback
  without state of its own.
\<close>

definition log_progress :: "(nat \<times> nat) list \<Rightarrow> nat \<Rightarrow> nat \<Rightarrow> (nat \<times> nat) list" where
  "log_progress calls completed totalCount = calls @ [(completed, totalCount)]"

definition pure_filter :: "(int list \<Rightarrow> int list) \<Rightarrow> 'st \<Rightarrow> int list \<Rightarrow> int list \<times> 'st" where
  "pure_filter f st keys = (f keys, st)"

text \<open>A completion order of the sub-queries for two lookups of the first sample term.\<close>

definition sample_order :: "(string \<times> jsstring FindMultiBulkData) list" where
  "sample_order =
     [(''reading'', \<lparr>item = kononeko, itemIndex = 1, indexIndex = 1\<rparr>),
      (''expression'', \<lparr>item = kononeko, itemIndex = 1, indexIndex = 0\<rparr>),
      (''reading'', \<lparr>item = kononeko, itemIndex = 0, indexIndex = 1\<rparr>),
      (''expression'', \<lparr>item = kononeko, itemIndex = 0, indexIndex = 0\<rparr>)]"

text \<open>An order in which the deletions of each group of \<open>deleteDictionary\<close> get to run.\<close>

definition sample_delete_orders :: "(string \<times> string) list list" where
  "sample_delete_orders =
     [[(''media'', ''dictionary''),
       (''tagMeta'', ''dictionary''),
       (''termMeta'', ''dictionary''),
       (''terms'', ''dictionary''),
       (''kanjiMeta'', ''dictionary''),
       (''kanji'', ''dictionary'')],
      [(''dictionaries'', ''title'')]]"

text \<open>The entry that a lookup of the first sample term gives.\<close>

definition sample_entry :: TermEntry where
  "sample_entry =
     \<lparr>te_index = 0, te_matchType = Exact, te_matchSource = SourceTerm,
      te_term = Some (JStr kononeko), te_reading = Some (JStr kononeko),
      te_definitionTags = [[110]], te_termTags = [[110], [118]], te_rules = [],
      te_definitions = None, te_score = None, te_dictionary = Some (JStr dictA),
      te_id = Some (JNum 1), te_sequence = 7\<rparr>"

section \<open>Splitting\<close>

lemma split_on_nonempty: "split_on sep s \<noteq> []"
  by (induction s) (auto split: list.splits)

lemma join_with_Cons:
  "ps \<noteq> [] \<Longrightarrow> join_with sep (p # ps) = p @ sep # join_with sep ps"
  by (cases ps) simp_all

lemma join_with_split_on: "join_with sep (split_on sep s) = s"
proof (induction s)
  case Nil
  show ?case by simp
next
  case (Cons c cs)
  show ?case
  proof (cases "c = sep")
    case True
    then show ?thesis
      using Cons.IH by (simp add: join_with_Cons split_on_nonempty)
  next
    case False
    obtain p ps where sp: "split_on sep cs = p # ps"
      using split_on_nonempty [of sep cs] by (cases "split_on sep cs") auto
    have "join_with sep ((c # p) # ps) = c # join_with sep (p # ps)"
      by (cases ps) simp_all
    then show ?thesis
      using False sp Cons.IH by simp
  qed
qed

lemma split_on_no_sep: "p \<in> set (split_on sep s) \<Longrightarrow> sep \<notin> set p"
proof (induction s arbitrary: p)
  case Nil
  then show ?case by simp
next
  case (Cons c cs)
  show ?case
  proof (cases "c = sep")
    case True
    then show ?thesis using Cons by auto
  next
    case False
    obtain q qs where sp: "split_on sep cs = q # qs"
      using split_on_nonempty [of sep cs] by (cases "split_on sep cs") auto
    have q: "sep \<notin> set q" using Cons.IH [of q] sp by simp
    have "p = c # q \<or> p \<in> set qs"
      using Cons.prems False sp by simp
    then show ?thesis
    proof
      assume "p = c # q"
      then show ?thesis using q False by auto
    next
      assume "p \<in> set qs"
      then have "p \<in> set (split_on sep cs)" using sp by simp
      then show ?thesis by (rule Cons.IH)
    qed
  qed
qed

lemma splitField_is_split_of: "is_split_of v (splitField v)"
proof (cases v)
  case None
  then show ?thesis by (simp add: is_split_of_def)
next
  case (Some j)
  then show ?thesis
    by (cases j)
      (auto simp: is_split_of_def join_with_split_on split_on_nonempty list_all_iff
            dest: split_on_no_sep)
qed

section \<open>Evaluation on the sample store\<close>

lemmas sample_defs =
  sample_db_def sample_tables_def sample_terms_def sample_tagMeta_def sample_termMeta_def
  sample_kanjiMeta_def sample_dictionaries_def dictA_def dictB_def neko_def kononeko_def

lemmas lookup_defs =
  findMultiBulk_def findMultiBulk_in_def execute_select_def subqueries_def sub_rows_def
  enumerate_eq_zip get_prop_def with_id_def stateless_def

lemmas terms_defs =
  findTermsBulk_def terms_indexNames_def terms_createQuery_def createOnlyQuery1_def
  createBoundQuery1_def createBoundQuery2_def stringReverse_def PERCENT_def termsPredicate_def
  has_dictionary_def createTermGeneric_def createTerm_def js_or_def SPACE_def

section \<open>Results of the lookups\<close>

lemma scan_rows_results:
  "scan_rows p cr hits (res0, st0) = Inr (res, st) \<Longrightarrow> r \<in> set res \<Longrightarrow>
   r \<in> set res0 \<or> (\<exists>data row. (data, row) \<in> set hits \<and> cr row data = Inr r)"
proof (induction hits arbitrary: res0 st0)
  case Nil
  then show ?case by simp
next
  case (Cons h hits)
  obtain data row where h: "h = (data, row)" by (cases h)
  obtain ok st1 where p: "p st0 row (item data) = (ok, st1)" by (cases "p st0 row (item data)")
  show ?case
  proof (cases ok)
    case False
    then have "scan_rows p cr hits (res0, st1) = Inr (res, st)"
      using Cons.prems(1) h p by simp
    from Cons.IH [OF this Cons.prems(2)] show ?thesis using h by auto
  next
    case True
    show ?thesis
    proof (cases "cr row data")
      case (Inl e)
      then show ?thesis using Cons.prems(1) h p True by simp
    next
      case (Inr x)
      then have "scan_rows p cr hits (res0 @ [x], st1) = Inr (res, st)"
        using Cons.prems(1) h p True by simp
      from Cons.IH [OF this Cons.prems(2)] show ?thesis using h Inr by auto
    qed
  qed
qed

lemma findMultiBulk_in_results:
  assumes "findMultiBulk_in order db tableName indexColumns items createQuery p st0 cr = Inr res"
    and "r \<in> set res"
  shows "\<exists>t rid doc data. map_of (tables (disk db)) tableName = Some t \<and> (rid, doc) \<in> set (rows t)
           \<and> cr (with_id doc rid) data = Inr r"
proof (cases "length items = 0 \<or> length indexColumns = 0")
  case True
  then show ?thesis using assms by (simp add: findMultiBulk_in_def)
next
  case False
  from assms(1) False obtain rs where rs: "execute_select db tableName (\<lambda>r. True) = Inr rs"
    by (auto simp: findMultiBulk_in_def split: sum.splits)
  then obtain t where t: "map_of (tables (disk db)) tableName = Some t" "rs = rows t"
    by (auto simp: execute_select_def split: if_splits option.splits)
  from assms(1) False rs obtain st where
    sc: "scan_rows p cr (concat (map (sub_rows rs createQuery) order)) ([], st0) = Inr (res, st)"
    by (auto simp: findMultiBulk_in_def split: sum.splits)
  from scan_rows_results [OF sc assms(2)] obtain data row where
    hit: "(data, row) \<in> set (concat (map (sub_rows rs createQuery) order))" "cr row data = Inr r"
    by auto
  then obtain rw where rw: "rw \<in> set rs" "row = with_id (snd rw) (fst rw)"
    by (auto simp: sub_rows_def)
  obtain rid doc where "rw = (rid, doc)" by (cases rw)
  then show ?thesis using t hit(2) rw by auto
qed

lemma get_prop_with_id: "name \<noteq> ''id'' \<Longrightarrow> get_prop (with_id doc rid) name = get_prop doc name"
  by (simp add: get_prop_def with_id_def update_conv')

lemma get_prop_with_id_id: "get_prop (with_id doc rid) ''id'' = Some (JNum rid)"
  by (simp add: get_prop_def with_id_def update_conv')


lemma createTerm_fields:
  "is_split_of (get_prop row ''termTags'') (te_termTags (createTerm ms mt row i))"
  "is_split_of (get_prop row ''rules'') (te_rules (createTerm ms mt row i))"
  "is_split_of (if truthy (get_prop row ''definitionTags'') then get_prop row ''definitionTags''
                else get_prop row ''tags'') (te_definitionTags (createTerm ms mt row i))"
  "te_sequence (createTerm ms mt row i) = (case get_prop row ''sequence'' of Some (JNum n) \<Rightarrow> n | _ \<Rightarrow> - 1)"
  "te_id (createTerm ms mt row i) = get_prop row ''id''"
  using splitField_is_split_of by (simp_all add: createTerm_def js_or_def)

lemma createTermGeneric_is_createTerm:
  "\<exists>ms mt. createTermGeneric matchType row data = createTerm ms mt row (itemIndex data)"
  unfolding createTermGeneric_def Let_def by blast

lemma stored_term_fields:
  assumes "e = createTerm ms mt (with_id doc rid) i"
  shows "te_id e = Some (JNum rid)
      \<and> is_split_of (get_prop doc ''termTags'') (te_termTags e)
      \<and> is_split_of (get_prop doc ''rules'') (te_rules e)
      \<and> is_split_of (if truthy (get_prop doc ''definitionTags'') then get_prop doc ''definitionTags''
                      else get_prop doc ''tags'') (te_definitionTags e)
      \<and> te_sequence e = (case get_prop doc ''sequence'' of Some (JNum n) \<Rightarrow> n | _ \<Rightarrow> - 1)"
  using createTerm_fields [where row = "with_id doc rid" and ms = ms and mt = mt and i = i]
  by (simp add: assms get_prop_with_id get_prop_with_id_id cong: if_cong)

lemma sample_exact_lookup:
  "findTermsBulk sample_db [kononeko] {dictA} Exact = Inr [sample_entry]"
  by (simp add: sample_defs lookup_defs terms_defs sample_entry_def)

lemma scan_rows_stateless_total:
  "scan_rows (stateless p) (\<lambda>row data. Inr (f row data)) hits (res0, st)
     = Inr (res0 @ map (\<lambda>h. f (snd h) (fst h)) (filter (\<lambda>h. p (snd h) (item (fst h))) hits), st)"
  by (induction hits arbitrary: res0) (auto simp: stateless_def)

lemma scan_rows_stateless_error:
  "h \<in> set hits \<Longrightarrow> p (snd h) (item (fst h)) \<Longrightarrow> cr (snd h) (fst h) = Inl e \<Longrightarrow>
   \<exists>e' h'. scan_rows (stateless p) cr hits (res0, st) = Inl e' \<and> h' \<in> set hits
       \<and> p (snd h') (item (fst h')) \<and> cr (snd h') (fst h') = Inl e'"
proof (induction hits arbitrary: res0)
  case Nil
  then show ?case by simp
next
  case (Cons x hits)
  obtain data row where x: "x = (data, row)" by (cases x)
  show ?case
  proof (cases "p row (item data)")
    case False
    then have "h \<in> set hits" using Cons.prems x by auto
    from Cons.IH [OF this Cons.prems(2,3), of res0] show ?thesis
      using False x by (auto simp: stateless_def)
  next
    case True
    show ?thesis
    proof (cases "cr row data")
      case (Inl e0)
      then show ?thesis using True x by (auto simp: stateless_def)
    next
      case (Inr r)
      then have "h \<in> set hits" using Cons.prems x by auto
      from Cons.IH [OF this Cons.prems(2,3), of "res0 @ [r]"] show ?thesis
        using True Inr x by (auto simp: stateless_def)
    qed
  qed
qed

lemma subqueries_mem:
  assumes "i < length items" "j < length indexColumns"
  shows "(indexColumns ! j, \<lparr>item = items ! i, itemIndex = i, indexIndex = j\<rparr>)
           \<in> set (subqueries indexColumns items)"
proof -
  have a: "(i, items ! i) \<in> set (enumerate 0 items)"
    using assms(1) by (simp add: in_set_enumerate_eq)
  have b: "(j, indexColumns ! j) \<in> set (enumerate 0 indexColumns)"
    using assms(2) by (simp add: in_set_enumerate_eq)
  show ?thesis
    unfolding subqueries_def set_concat set_map
    using a b by force
qed

lemma sub_rows_mem:
  assumes "(rid, doc) \<in> set rs" "sql_eq (get_prop doc (fst sq)) (createQuery (item (snd sq)))"
  shows "(snd sq, with_id doc rid) \<in> set (sub_rows rs createQuery sq)"
  using assms by (force simp: sub_rows_def)

lemma hits_mem:
  assumes "(rid, doc) \<in> set rs" "sq \<in> set order"
    "sql_eq (get_prop doc (fst sq)) (createQuery (item (snd sq)))"
  shows "(snd sq, with_id doc rid) \<in> set (concat (map (sub_rows rs createQuery) order))"
  using sub_rows_mem [of rid doc rs sq createQuery] assms by auto

lemma hits_of_item:
  assumes rs: "(rid, doc) \<in> set rs"
    and it: "it \<in> set items"
    and ix: "j < length indexColumns"
    and eq: "sql_eq (get_prop doc (indexColumns ! j)) (createQuery it)"
  shows "\<exists>i. i < length items \<and> items ! i = it
           \<and> (\<lparr>item = it, itemIndex = i, indexIndex = j\<rparr>, with_id doc rid)
               \<in> set (concat (map (sub_rows rs createQuery) (subqueries indexColumns items)))"
proof -
  from it obtain i where i: "i < length items" "items ! i = it"
    by (auto simp: in_set_conv_nth)
  let ?sq = "(indexColumns ! j, \<lparr>item = it, itemIndex = i, indexIndex = j\<rparr>)"
  have "?sq \<in> set (subqueries indexColumns items)"
    using subqueries_mem [OF i(1) ix] i(2) by simp
  from hits_mem [OF rs this] eq i show ?thesis by auto
qed

section \<open>C1: suffix lookups\<close>

text \<open>
  C1 at the sample store. The first sample row has the reading \<open>kononeko\<close>, which ends
  with \<open>neko\<close>, and stores its reversal; the second has the reading \<open>neko\<close> itself. The
  suffix lookup of \<open>neko\<close> builds the key by reversing the term and appending the percent
  sign and queries the two reversed indices, as the claim says; but \<open>findMultiBulk\<close>
  compares the index with the key by \<open>=\<close>, so the key matches neither row and the lookup
  returns no entry.
\<close>

theorem suffix_lookup_finds_nothing:
  "get_prop (snd (sample_terms ! 0)) ''reading'' = Some (JStr ([12371, 12398] @ neko))
   \<and> get_prop (snd (sample_terms ! 0)) ''readingReverse'' = Some (JStr (stringReverse ([12371, 12398] @ neko)))
   \<and> get_prop (snd (sample_terms ! 0)) ''dictionary'' = Some (JStr dictA)
   \<and> get_prop (snd (sample_terms ! 1)) ''reading'' = Some (JStr neko)
   \<and> get_prop (snd (sample_terms ! 1)) ''readingReverse'' = Some (JStr (stringReverse neko))
   \<and> terms_indexNames Suffix = [''expressionReverse'', ''readingReverse'']
   \<and> terms_createQuery Suffix neko = JStr (stringReverse neko @ [PERCENT])
   \<and> findTermsBulk sample_db [neko] {dictA, dictB} Suffix = Inr []"
  by (simp add: sample_defs lookup_defs terms_defs)

section \<open>C4: de-duplication in findTermsBulk\<close>

lemma scan_rows_append:
  "scan_rows p cr (xs @ ys) acc
     = (case scan_rows p cr xs acc of Inl e \<Rightarrow> Inl e | Inr acc' \<Rightarrow> scan_rows p cr ys acc')"
proof (induction xs arbitrary: acc)
  case Nil
  show ?case by simp
next
  case (Cons x xs)
  obtain data row where x: "x = (data, row)" by (cases x)
  obtain res st where acc: "acc = (res, st)" by (cases acc)
  obtain ok st1 where p: "p st row (item data) = (ok, st1)" by (cases "p st row (item data)")
  show ?case
    using Cons.IH x acc p by (cases ok; cases "cr row data") simp_all
qed

lemma scan_rows_total:
  "\<exists>res st'. scan_rows p (\<lambda>row data. Inr (g row data)) hits (res0, st) = Inr (res, st')"
proof (induction hits arbitrary: res0 st)
  case Nil
  show ?case by simp
next
  case (Cons x hits)
  obtain data row where x: "x = (data, row)" by (cases x)
  obtain ok st1 where p: "p st row (item data) = (ok, st1)" by (cases "p st row (item data)")
  show ?case
    using Cons.IH x p by (cases ok) simp_all
qed

lemma scan_terms_invariant:
  assumes "scan_rows (termsPredicate ds) (\<lambda>row data. Inr (g row data)) hits (res0, vis0) = Inr (res, vis)"
    and "\<And>row data. te_id (g row data) = get_prop row ''id''"
    and "map te_id res0 = vis0" and "distinct vis0"
  shows "map te_id res = vis \<and> distinct vis \<and> set res0 \<subseteq> set res
       \<and> set vis \<subseteq> set vis0 \<union> (\<lambda>h. get_prop (snd h) ''id'') ` set hits"
  using assms(1,3,4)
proof (induction hits arbitrary: res0 vis0)
  case Nil
  then show ?case by simp
next
  case (Cons x hits)
  obtain data row where x: "x = (data, row)" by (cases x)
  show ?case
  proof (cases "has_dictionary ds (get_prop row ''dictionary'') \<and> get_prop row ''id'' \<notin> set vis0")
    case True
    then have tp: "termsPredicate ds vis0 row (item data) = (True, vis0 @ [get_prop row ''id''])"
      by (simp add: termsPredicate_def Let_def)
    have step: "scan_rows (termsPredicate ds) (\<lambda>row data. Inr (g row data)) hits
                 (res0 @ [g row data], vis0 @ [get_prop row ''id'']) = Inr (res, vis)"
      using Cons.prems(1) x tp by simp
    have "map te_id (res0 @ [g row data]) = vis0 @ [get_prop row ''id'']"
      using Cons.prems(2) assms(2) by simp
    moreover have "distinct (vis0 @ [get_prop row ''id''])"
      using Cons.prems(3) True by simp
    ultimately show ?thesis
      using Cons.IH [OF step] x by auto
  next
    case False
    then have tp: "termsPredicate ds vis0 row (item data) = (False, vis0)"
      by (auto simp: termsPredicate_def Let_def)
    have step: "scan_rows (termsPredicate ds) (\<lambda>row data. Inr (g row data)) hits
                 (res0, vis0) = Inr (res, vis)"
      using Cons.prems(1) x tp by simp
    show ?thesis
      using Cons.IH [OF step Cons.prems(2,3)] x by auto
  qed
qed

lemma scan_terms_first:
  assumes run: "scan_rows (termsPredicate ds) (\<lambda>row data. Inr (g row data)) (hs1 @ h # hs2) ([], [])
                  = Inr (res, vis)"
    and gid: "\<And>row data. te_id (g row data) = get_prop row ''id''"
    and en: "has_dictionary ds (get_prop (snd h) ''dictionary'')"
    and fresh: "\<forall>h'\<in>set hs1. get_prop (snd h') ''id'' \<noteq> get_prop (snd h) ''id''"
  shows "g (snd h) (fst h) \<in> set res"
proof -
  obtain data row where h: "h = (data, row)" by (cases h)
  obtain res1 vis1 where s1:
    "scan_rows (termsPredicate ds) (\<lambda>row data. Inr (g row data)) hs1 ([], []) = Inr (res1, vis1)"
    using scan_rows_total [of "termsPredicate ds" g hs1 "[]" "[]"] by blast
  from scan_terms_invariant [OF s1 gid] have inv1: "map te_id res1 = vis1" "distinct vis1"
    "set vis1 \<subseteq> (\<lambda>h. get_prop (snd h) ''id'') ` set hs1" by auto
  have nv: "get_prop row ''id'' \<notin> set vis1"
    using inv1(3) fresh h by (metis (no_types, lifting) imageE snd_conv subsetD)
  have tp: "termsPredicate ds vis1 row (item data) = (True, vis1 @ [get_prop row ''id''])"
    using nv en h by (simp add: termsPredicate_def Let_def)
  have s2: "scan_rows (termsPredicate ds) (\<lambda>row data. Inr (g row data)) hs2
              (res1 @ [g row data], vis1 @ [get_prop row ''id'']) = Inr (res, vis)"
    using run s1 tp h by (simp add: scan_rows_append)
  have "map te_id (res1 @ [g row data]) = vis1 @ [get_prop row ''id'']"
    using inv1(1) gid by simp
  moreover have "distinct (vis1 @ [get_prop row ''id''])"
    using inv1(2) nv by simp
  ultimately have "set (res1 @ [g row data]) \<subseteq> set res"
    using scan_terms_invariant [OF s2 gid] by blast
  then show ?thesis using h by simp
qed

lemma te_id_createTermGeneric: "te_id (createTermGeneric mt row data) = get_prop row ''id''"
  by (simp add: createTermGeneric_def createTerm_def Let_def)

lemma sub_rows_distinct_ids:
  assumes "distinct (map fst rs)"
  shows "distinct (map (\<lambda>h. get_prop (snd h) ''id'') (sub_rows rs cq sq))"
proof -
  let ?P = "\<lambda>r. sql_eq (get_prop (snd r) (fst sq)) (cq (item (snd sq)))"
  have eq: "map (\<lambda>h. get_prop (snd h) ''id'') (sub_rows rs cq sq)
          = map (\<lambda>n. Some (JNum n)) (map fst (filter ?P rs))"
    by (simp add: sub_rows_def get_prop_with_id_id comp_def)
  have d: "distinct (map fst (filter ?P rs))"
    using assms by (rule distinct_map_filter)
  have inj: "inj_on (\<lambda>n. Some (JNum n)) (set (map fst (filter ?P rs)))"
    by (rule inj_onI) simp
  have "distinct (map (\<lambda>n. Some (JNum n)) (map fst (filter ?P rs)))"
    unfolding distinct_map [of "\<lambda>n. Some (JNum n)"] using d inj by blast
  then show ?thesis unfolding eq .
qed

lemma sub_rows_elem:
  assumes "h \<in> set (sub_rows rs cq sq)"
  shows "\<exists>rid doc. (rid, doc) \<in> set rs \<and> h = (snd sq, with_id doc rid)
           \<and> sql_eq (get_prop doc (fst sq)) (cq (item (snd sq)))"
proof -
  from assms obtain r where r: "r \<in> set rs" "h = (snd sq, with_id (snd r) (fst r))"
    "sql_eq (get_prop (snd r) (fst sq)) (cq (item (snd sq)))"
    by (auto simp: sub_rows_def)
  obtain rid doc where "r = (rid, doc)" by (cases r)
  with r show ?thesis by auto
qed

lemma find_Some_split:
  "find P xs = Some x \<Longrightarrow> \<exists>pre post. xs = pre @ x # post \<and> P x \<and> (\<forall>y\<in>set pre. \<not> P y)"
proof (induction xs)
  case Nil
  then show ?case by simp
next
  case (Cons a xs)
  show ?case
  proof (cases "P a")
    case True
    then have "a = x" using Cons.prems by simp
    then have "a # xs = [] @ x # xs \<and> P x \<and> (\<forall>y\<in>set []. \<not> P y)" using True by simp
    then show ?thesis by blast
  next
    case False
    then have "find P xs = Some x" using Cons.prems by simp
    from Cons.IH [OF this] obtain pre post where
      p: "xs = pre @ x # post" "P x" "\<forall>y\<in>set pre. \<not> P y" by blast
    have "a # xs = (a # pre) @ x # post \<and> P x \<and> (\<forall>y\<in>set (a # pre). \<not> P y)"
      using p False by simp
    then show ?thesis by blast
  qed
qed

lemma subqueries_elem:
  assumes "sq \<in> set (subqueries indexColumns items)"
  shows "itemIndex (snd sq) < length items \<and> item (snd sq) = items ! itemIndex (snd sq)
       \<and> indexIndex (snd sq) < length indexColumns
       \<and> fst sq = indexColumns ! indexIndex (snd sq)"
  using assms by (auto simp: subqueries_def in_set_enumerate_eq)

lemma map_fst_enumerate: "map (\<lambda>x. F (fst x)) (zip [0..<length xs] xs) = map F [0..<length xs]"
  by (rule nth_equalityI) simp_all

lemma distinct_subqueries: "distinct (subqueries indexColumns items)"
proof -
  let ?f = "\<lambda>sq :: string \<times> 'a FindMultiBulkData. (itemIndex (snd sq), indexIndex (snd sq))"
  have inner: "map (\<lambda>xa. (i, fst xa)) (zip [0..<length indexColumns] indexColumns)
                 = map (Pair i) [0..<length indexColumns]" for i :: nat
    by (rule map_fst_enumerate)
  have "map ?f (subqueries indexColumns items)
          = concat (map (\<lambda>x. map (\<lambda>xa. (fst x, fst xa)) (zip [0..<length indexColumns] indexColumns))
                     (zip [0..<length items] items))"
    by (simp add: subqueries_def map_concat comp_def case_prod_unfold enumerate_eq_zip)
  also have "\<dots> = concat (map (\<lambda>x. map (Pair (fst x)) [0..<length indexColumns])
                     (zip [0..<length items] items))"
    by (simp only: inner)
  also have "\<dots> = concat (map (\<lambda>i. map (Pair i) [0..<length indexColumns]) [0..<length items])"
    by (simp only: map_fst_enumerate [where F = "\<lambda>i. map (Pair i) [0..<length indexColumns]"])
  also have "\<dots> = List.product [0..<length items] [0..<length indexColumns]"
    by (simp add: List.product_concat_map)
  finally have "distinct (map ?f (subqueries indexColumns items))"
    by (simp add: distinct_product)
  then show ?thesis by (simp add: distinct_map)
qed

lemma scan_terms_source:
  assumes "scan_rows (termsPredicate ds) (\<lambda>row data. Inr (g row data)) hits (res0, vis0) = Inr (res, vis)"
  shows "\<forall>e\<in>set res. e \<in> set res0
           \<or> (\<exists>h\<in>set hits. e = g (snd h) (fst h) \<and> has_dictionary ds (get_prop (snd h) ''dictionary''))"
  using assms
proof (induction hits arbitrary: res0 vis0)
  case Nil
  then show ?case by simp
next
  case (Cons x hits)
  obtain data row where x: "x = (data, row)" by (cases x)
  show ?case
  proof (cases "has_dictionary ds (get_prop row ''dictionary'') \<and> get_prop row ''id'' \<notin> set vis0")
    case True
    then have tp: "termsPredicate ds vis0 row (item data) = (True, vis0 @ [get_prop row ''id''])"
      by (simp add: termsPredicate_def Let_def)
    have step: "scan_rows (termsPredicate ds) (\<lambda>row data. Inr (g row data)) hits
                 (res0 @ [g row data], vis0 @ [get_prop row ''id'']) = Inr (res, vis)"
      using Cons.prems(1) x tp by simp
    show ?thesis
      using Cons.IH [OF step] x True by auto
  next
    case False
    then have tp: "termsPredicate ds vis0 row (item data) = (False, vis0)"
      by (auto simp: termsPredicate_def Let_def)
    have step: "scan_rows (termsPredicate ds) (\<lambda>row data. Inr (g row data)) hits
                 (res0, vis0) = Inr (res, vis)"
      using Cons.prems(1) x tp by simp
    show ?thesis
      using Cons.IH [OF step] x by auto
  qed
qed

text \<open>
  C4. The ids of the stored rows being distinct: whenever \<open>findTermsBulk\<close> returns, and
  whenever the lookup returns with the sub-queries that were issued, one for each pair of
  an input term and an index field, completing in any order, no two returned entries have
  the same id; a stored row has an entry exactly when its dictionary is enabled and one of
  the input terms matches it on one of the index fields, however many terms and fields
  match it; and each entry is the one built at the first sub-query of the order that
  returns its row. Which rows are emitted does not depend on the order. On an open store
  that has the table the lookup returns.
\<close>

theorem findTermsBulk_emits_each_row_once:
  assumes ids0: "distinct (map fst (table_rows db ''terms''))"
  shows "(\<forall>es. findTermsBulk db termList dictionaries matchType = Inr es
            \<longrightarrow> each_row_once (table_rows db ''terms'') termList dictionaries matchType
                  (subqueries (terms_indexNames matchType) termList) es)
       \<and> (handle db \<noteq> None \<and> map_of (tables (disk db)) ''terms'' \<noteq> None
            \<longrightarrow> (\<exists>es. findTermsBulk db termList dictionaries matchType = Inr es))
       \<and> (\<forall>order. distinct order
                   \<and> set order = set (subqueries (terms_indexNames matchType) termList)
            \<longrightarrow> (\<forall>es. findTermsBulk_in order db termList dictionaries matchType = Inr es
                    \<longrightarrow> each_row_once (table_rows db ''terms'') termList dictionaries matchType
                          order es)
               \<and> (handle db \<noteq> None \<and> map_of (tables (disk db)) ''terms'' \<noteq> None
                    \<longrightarrow> (\<exists>es. findTermsBulk_in order db termList dictionaries matchType = Inr es)))"
proof -
  let ?cq = "terms_createQuery matchType"
  let ?g = "createTermGeneric matchType"
  let ?ixs = "terms_indexNames matchType"
  let ?rs = "table_rows db ''terms''"
  let ?f = "sub_rows ?rs ?cq"
  let ?open = "handle db \<noteq> None \<and> map_of (tables (disk db)) ''terms'' \<noteq> None"
  let ?idf = "\<lambda>h :: jsstring FindMultiBulkData \<times> document. get_prop (snd h) ''id''"
  let ?m = "\<lambda>doc (sq :: string \<times> jsstring FindMultiBulkData).
              sql_eq (get_prop doc (fst sq)) (?cq (item (snd sq)))"
  have main: "(\<forall>es. findTermsBulk_in order db termList dictionaries matchType = Inr es
                 \<longrightarrow> each_row_once ?rs termList dictionaries matchType order es)
              \<and> (?open \<longrightarrow> (\<exists>es. findTermsBulk_in order db termList dictionaries matchType = Inr es))"
    if cover: "set order = set (subqueries ?ixs termList)" for order
  proof (cases "termList = [] \<or> (\<exists>e. execute_select db ''terms'' (\<lambda>r. True) = Inl e)")
    case True
    then show ?thesis
    proof
      assume empty: "termList = []"
      then have "findTermsBulk_in order db termList dictionaries matchType = Inr []"
        by (simp add: findTermsBulk_in_def findMultiBulk_in_def)
      moreover have "each_row_once ?rs termList dictionaries matchType order []"
        using empty by (simp add: each_row_once_def matched_by_def)
      ultimately show ?thesis by simp
    next
      assume "\<exists>e. execute_select db ''terms'' (\<lambda>r. True) = Inl e"
      then obtain e where fail: "execute_select db ''terms'' (\<lambda>r. True) = Inl e" by blast
      show ?thesis
      proof (cases "termList = []")
        case True
        then have "findTermsBulk_in order db termList dictionaries matchType = Inr []"
          by (simp add: findTermsBulk_in_def findMultiBulk_in_def)
        moreover have "each_row_once ?rs termList dictionaries matchType order []"
          using True by (simp add: each_row_once_def matched_by_def)
        ultimately show ?thesis by simp
      next
        case False
        then have "findTermsBulk_in order db termList dictionaries matchType = Inl e"
          using fail by (simp add: findTermsBulk_in_def findMultiBulk_in_def terms_indexNames_def)
        moreover have "\<not> ?open"
          using fail by (auto simp: execute_select_def split: if_splits option.splits)
        ultimately show ?thesis by simp
      qed
    qed
  next
    case False
    then have ne: "termList \<noteq> []" by simp
    from False obtain rs where "execute_select db ''terms'' (\<lambda>r. True) = Inr rs"
      by (cases "execute_select db ''terms'' (\<lambda>r. True)") auto
    then obtain t where op: "handle db \<noteq> None" and tb: "map_of (tables (disk db)) ''terms'' = Some t"
      by (auto simp: execute_select_def split: if_splits option.splits)
    have tr: "?rs = rows t"
      using tb by (simp add: table_rows_def)
    have ids: "distinct (map fst ?rs)"
      by (rule ids0)
    let ?hits = "concat (map ?f order)"
    have sel: "execute_select db ''terms'' (\<lambda>r. True) = Inr ?rs"
      using op tb by (simp add: execute_select_def table_rows_def)
    obtain res vis where run:
      "scan_rows (termsPredicate dictionaries) (\<lambda>row data. Inr (?g row data)) ?hits ([], []) = Inr (res, vis)"
      using scan_rows_total [of "termsPredicate dictionaries" ?g ?hits "[]" "[]"] by blast
    have out: "findTermsBulk_in order db termList dictionaries matchType = Inr res"
      using ne sel run
      by (simp add: findTermsBulk_in_def findMultiBulk_in_def terms_indexNames_def)
    from scan_terms_invariant [OF run te_id_createTermGeneric]
    have inv: "map te_id res = vis" "distinct vis" by auto
    then have dist: "distinct (map te_id res)" by simp
    have gid: "te_id (?g (with_id doc rid) data) = Some (JNum rid)" for doc rid data
      by (simp add: te_id_createTermGeneric get_prop_with_id_id)
    have same_id: "e = e'" if "e \<in> set res" "e' \<in> set res" "te_id e = te_id e'" for e e'
      using dist that by (metis distinct_map inj_onD)
    have first: "?g (with_id doc rid) (snd sq) \<in> set res"
      if fm: "first_match matchType order doc = Some sq" and row: "(rid, doc) \<in> set ?rs"
        and en: "has_dictionary dictionaries (get_prop doc ''dictionary'')"
      for sq rid doc
    proof -
      from find_Some_split [OF fm [unfolded first_match_def]]
      obtain pre post where ord: "order = pre @ sq # post" and hit: "?m doc sq"
        and early: "\<forall>sq'\<in>set pre. \<not> ?m doc sq'" by blast
      let ?h = "(snd sq, with_id doc rid)"
      have "?h \<in> set (?f sq)"
        using sub_rows_mem [of rid doc ?rs sq ?cq] row hit by simp
      then obtain a b where ab: "?f sq = a @ ?h # b"
        by (auto dest: split_list)
      have "distinct (map ?idf (?f sq))"
        using ids by (rule sub_rows_distinct_ids)
      then have "?idf ?h \<notin> ?idf ` set a"
        unfolding ab by simp
      then have fresh_a: "\<forall>h'\<in>set a. ?idf h' \<noteq> ?idf ?h"
        by force
      have fresh_pre: "?idf h' \<noteq> ?idf ?h" if "h' \<in> set (concat (map ?f pre))" for h'
      proof
        assume same: "?idf h' = ?idf ?h"
        from that obtain sq' where sq': "sq' \<in> set pre" "h' \<in> set (?f sq')" by auto
        from sub_rows_elem [OF sq'(2)] obtain rid' doc' where r':
          "(rid', doc') \<in> set ?rs" "h' = (snd sq', with_id doc' rid')"
          "?m doc' sq'" by blast
        from same r'(2) have "rid' = rid"
          by (simp add: get_prop_with_id_id)
        then have "doc' = doc"
          using ids r'(1) row by (metis eq_key_imp_eq_value)
        then show False using r'(3) early sq'(1) by blast
      qed
      have split: "?hits = (concat (map ?f pre) @ a) @ ?h # (b @ concat (map ?f post))"
        using ord ab by simp
      have en': "has_dictionary dictionaries (get_prop (snd ?h) ''dictionary'')"
        using en by (simp add: get_prop_with_id)
      have fresh: "\<forall>h'\<in>set (concat (map ?f pre) @ a). get_prop (snd h') ''id'' \<noteq> get_prop (snd ?h) ''id''"
        using fresh_a fresh_pre by auto
      have "?g (snd ?h) (fst ?h) \<in> set res"
        by (rule scan_terms_first [OF run [unfolded split] te_id_createTermGeneric en' fresh])
      then show ?thesis by simp
    qed
    have src: "\<exists>rid doc sq'. (rid, doc) \<in> set ?rs
                 \<and> has_dictionary dictionaries (get_prop doc ''dictionary'')
                 \<and> sq' \<in> set order \<and> ?m doc sq' \<and> te_id e = Some (JNum rid)"
      if e: "e \<in> set res" for e
    proof -
      from scan_terms_source [OF run, rule_format, OF e]
      have "\<exists>h\<in>set ?hits. e = ?g (snd h) (fst h)
              \<and> has_dictionary dictionaries (get_prop (snd h) ''dictionary'')"
        by simp
      then obtain h where h: "h \<in> set ?hits" "e = ?g (snd h) (fst h)"
        "has_dictionary dictionaries (get_prop (snd h) ''dictionary'')" by blast
      from h(1) obtain sq' where sq': "sq' \<in> set order" "h \<in> set (?f sq')" by auto
      from sub_rows_elem [OF sq'(2)] obtain rid doc where r:
        "(rid, doc) \<in> set ?rs" "h = (snd sq', with_id doc rid)" "?m doc sq'" by blast
      have "has_dictionary dictionaries (get_prop doc ''dictionary'')"
        using h(3) r(2) by (simp add: get_prop_with_id)
      moreover have "te_id e = Some (JNum rid)"
        using h(2) r(2) gid by simp
      ultimately show ?thesis using r(1,3) sq'(1) by blast
    qed
    have some: "\<exists>sq. first_match matchType order doc = Some sq \<and> sq \<in> set order"
      if "sq' \<in> set order" "?m doc sq'" for doc sq'
    proof (cases "first_match matchType order doc")
      case None
      then show ?thesis using that by (auto simp: first_match_def find_None_iff)
    next
      case (Some sq)
      from find_Some_split [OF Some [unfolded first_match_def]] have "sq \<in> set order" by auto
      then show ?thesis using Some by simp
    qed
    have emitted: "(Some (JNum (fst r)) \<in> te_id ` set res)
              = (has_dictionary dictionaries (get_prop (snd r) ''dictionary'')
                 \<and> matched_by matchType termList (snd r))"
      if r: "r \<in> set ?rs" for r
    proof
      assume "Some (JNum (fst r)) \<in> te_id ` set res"
      then obtain e where e: "e \<in> set res" "te_id e = Some (JNum (fst r))" by force
      from src [OF e(1)] obtain rid doc sq' where s: "(rid, doc) \<in> set ?rs"
        "has_dictionary dictionaries (get_prop doc ''dictionary'')"
        "sq' \<in> set order" "?m doc sq'" "te_id e = Some (JNum rid)" by blast
      have "rid = fst r" using e(2) s(5) by simp
      then have doc: "doc = snd r"
        using ids s(1) r by (metis eq_key_imp_eq_value prod.collapse)
      from s(3) cover have "sq' \<in> set (subqueries ?ixs termList)" by simp
      from subqueries_elem [OF this] have "item (snd sq') \<in> set termList" "fst sq' \<in> set ?ixs"
        by simp_all
      then have "matched_by matchType termList doc"
        using s(4) unfolding matched_by_def by blast
      then show "has_dictionary dictionaries (get_prop (snd r) ''dictionary'')
                 \<and> matched_by matchType termList (snd r)"
        using s(2) doc by simp
    next
      assume a: "has_dictionary dictionaries (get_prop (snd r) ''dictionary'')
                 \<and> matched_by matchType termList (snd r)"
      then obtain it ix where m: "it \<in> set termList" "ix \<in> set ?ixs"
        "sql_eq (get_prop (snd r) ix) (?cq it)"
        unfolding matched_by_def by blast
      from m(1) obtain i where i: "i < length termList" "termList ! i = it"
        by (auto simp: in_set_conv_nth)
      from m(2) obtain j where j: "j < length ?ixs" "?ixs ! j = ix"
        by (auto simp: in_set_conv_nth)
      let ?sq = "(?ixs ! j, \<lparr>item = termList ! i, itemIndex = i, indexIndex = j\<rparr>)"
      have "?sq \<in> set order"
        using subqueries_mem [OF i(1) j(1)] cover by simp
      moreover have "?m (snd r) ?sq"
        using m(3) i(2) j(2) by simp
      ultimately obtain sq where sq: "first_match matchType order (snd r) = Some sq"
        using some by blast
      have "?g (with_id (snd r) (fst r)) (snd sq) \<in> set res"
        using first [OF sq, of "fst r"] r a by simp
      then have "te_id (?g (with_id (snd r) (fst r)) (snd sq)) \<in> te_id ` set res"
        by (rule imageI)
      then show "Some (JNum (fst r)) \<in> te_id ` set res"
        unfolding gid .
    qed
    have entry: "\<exists>r\<in>set ?rs.
            (case first_match matchType order (snd r) of
               None \<Rightarrow> False
             | Some sq \<Rightarrow>
                 e = ?g (with_id (snd r) (fst r)) (snd sq)
                 \<and> itemIndex (snd sq) < length termList
                 \<and> item (snd sq) = termList ! itemIndex (snd sq)
                 \<and> indexIndex (snd sq) < length ?ixs
                 \<and> fst sq = ?ixs ! indexIndex (snd sq))"
      if e: "e \<in> set res" for e
    proof -
      from src [OF e] obtain rid doc sq' where s: "(rid, doc) \<in> set ?rs"
        "has_dictionary dictionaries (get_prop doc ''dictionary'')"
        "sq' \<in> set order" "?m doc sq'" "te_id e = Some (JNum rid)" by blast
      from some [OF s(3,4)] obtain sq where sq: "first_match matchType order doc = Some sq"
        "sq \<in> set order" by blast
      have mem: "?g (with_id doc rid) (snd sq) \<in> set res"
        by (rule first [OF sq(1) s(1,2)])
      have eq: "e = ?g (with_id doc rid) (snd sq)"
        by (rule same_id [OF e mem]) (simp add: s(5) gid)
      from sq(2) cover have "sq \<in> set (subqueries ?ixs termList)" by simp
      note shape = subqueries_elem [OF this]
      show ?thesis
        by (rule bexI [OF _ s(1)]) (simp add: sq(1) eq shape)
    qed
    have "each_row_once ?rs termList dictionaries matchType order res"
      unfolding each_row_once_def using dist emitted entry by blast
    with out show ?thesis by simp
  qed
  have canon: "findTermsBulk db termList dictionaries matchType
               = findTermsBulk_in (subqueries ?ixs termList) db termList dictionaries matchType"
    by (simp add: findTermsBulk_def findTermsBulk_in_def findMultiBulk_def)
  have self: "set (subqueries ?ixs termList) = set (subqueries ?ixs termList)"
    by (rule refl)
  have orders: "(\<forall>es. findTermsBulk_in order db termList dictionaries matchType = Inr es
                    \<longrightarrow> each_row_once ?rs termList dictionaries matchType order es)
               \<and> (?open \<longrightarrow> (\<exists>es. findTermsBulk_in order db termList dictionaries matchType = Inr es))"
    if "distinct order \<and> set order = set (subqueries ?ixs termList)" for order
    using main [of order] that by blast
  show ?thesis
    unfolding canon
    using main [OF self, THEN conjunct1] main [OF self, THEN conjunct2] orders
    by (intro conjI allI impI) blast+
qed

text \<open>
  The theorem at the sample store, for the term \<open>kononeko\<close> looked up twice, which
  matches the first sample row four times: with the sub-queries completing in the order of
  their creation, and in the reverse of it.
\<close>

theorem findTermsBulk_emits_each_row_once_witness:
  "findTermsBulk sample_db [kononeko, kononeko] {dictA} Exact = Inr [sample_entry]
   \<and> each_row_once sample_terms [kononeko, kononeko] {dictA} Exact
        (subqueries (terms_indexNames Exact) [kononeko, kononeko]) [sample_entry]
   \<and> findTermsBulk_in sample_order sample_db [kononeko, kononeko] {dictA} Exact
       = Inr [sample_entry\<lparr>te_index := 1, te_matchSource := SourceReading\<rparr>]
   \<and> each_row_once sample_terms [kononeko, kononeko] {dictA} Exact sample_order
        [sample_entry\<lparr>te_index := 1, te_matchSource := SourceReading\<rparr>]"
proof -
  have tr: "table_rows sample_db ''terms'' = sample_terms"
    by (simp add: table_rows_def sample_db_def sample_tables_def)
  have h1: "distinct (map fst (table_rows sample_db ''terms''))"
    unfolding tr by (simp add: sample_terms_def)
  have h2: "handle sample_db \<noteq> None \<and> map_of (tables (disk sample_db)) ''terms'' \<noteq> None"
    by (simp add: sample_db_def sample_tables_def)
  have h3: "distinct sample_order
      \<and> set sample_order = set (subqueries (terms_indexNames Exact) [kononeko, kononeko])"
    by (auto simp: sample_order_def subqueries_def terms_indexNames_def enumerate_eq_zip)
  note inst = findTermsBulk_emits_each_row_once [OF h1, of "[kononeko, kononeko]" "{dictA}" Exact]
  from inst [THEN conjunct2, THEN conjunct1, rule_format, OF h2]
  obtain es1 where r1: "findTermsBulk sample_db [kononeko, kononeko] {dictA} Exact = Inr es1"
    by blast
  from inst [THEN conjunct2, THEN conjunct2, rule_format, OF h3, THEN conjunct2, rule_format, OF h2]
  obtain es2 where r2:
    "findTermsBulk_in sample_order sample_db [kononeko, kononeko] {dictA} Exact = Inr es2"
    by blast
  have e1: "findTermsBulk sample_db [kononeko, kononeko] {dictA} Exact = Inr [sample_entry]"
    by (simp add: sample_defs lookup_defs terms_defs sample_entry_def)
  have e2: "findTermsBulk_in sample_order sample_db [kononeko, kononeko] {dictA} Exact
       = Inr [sample_entry\<lparr>te_index := 1, te_matchSource := SourceReading\<rparr>]"
    by (simp add: findTermsBulk_in_def sample_order_def sample_defs lookup_defs terms_defs
        sample_entry_def)
  have c1: "each_row_once sample_terms [kononeko, kononeko] {dictA} Exact
        (subqueries (terms_indexNames Exact) [kononeko, kononeko]) [sample_entry]"
    using inst [THEN conjunct1, rule_format, OF e1] unfolding tr .
  have c2: "each_row_once sample_terms [kononeko, kononeko] {dictA} Exact sample_order
        [sample_entry\<lparr>te_index := 1, te_matchSource := SourceReading\<rparr>]"
    using inst [THEN conjunct2, THEN conjunct2, rule_format, OF h3, THEN conjunct1, rule_format, OF e2]
    unfolding tr .
  from e1 c1 e2 c2 show ?thesis by (intro conjI)
qed


section \<open>C5: the progress callback of bulkDelete\<close>

lemma bulkDelete_matched:
  assumes op: "handle db \<noteq> None" and tb: "map_of (tables (disk db)) tableName = Some t"
    and ix: "ix \<noteq> []"
  shows "bulkDelete db tableName (Some ix) query filterKeys onProgress st
     = (if filter (\<lambda>r. sql_eq (get_prop (snd r) ix) query) (rows t) = []
        then Inr (db, call_onProgress onProgress st 0 0)
        else (case filterKeys of
                Some fk \<Rightarrow>
                  (case fk st (map fst (filter (\<lambda>r. sql_eq (get_prop (snd r) ix) query) (rows t))) of
                     (filteredKeys, st1) \<Rightarrow>
                       if filteredKeys = []
                       then Inr (db, call_onProgress onProgress st1 0
                                  (length (filter (\<lambda>r. sql_eq (get_prop (snd r) ix) query) (rows t))))
                       else Inr (execute_delete db tableName (\<lambda>r. fst r \<in> set filteredKeys),
                                 call_onProgress onProgress st1 (length filteredKeys)
                                  (length (filter (\<lambda>r. sql_eq (get_prop (snd r) ix) query) (rows t)))))
              | None \<Rightarrow>
                  Inr (execute_delete db tableName (\<lambda>r. sql_eq (get_prop (snd r) ix) query),
                       call_onProgress onProgress st
                         (length (filter (\<lambda>r. sql_eq (get_prop (snd r) ix) query) (rows t)))
                         (length (filter (\<lambda>r. sql_eq (get_prop (snd r) ix) query) (rows t))))))"
proof -
  have sel: "execute_select db tableName (\<lambda>r. sql_eq (get_prop (snd r) ix) query)
               = Inr (filter (\<lambda>r. sql_eq (get_prop (snd r) ix) query) (rows t))"
    using op tb by (simp add: execute_select_def)
  show ?thesis
    unfolding bulkDelete_def using op ix
    by (simp add: sel Let_def split: option.split prod.split)
qed

text \<open>
  C5, as the code has it. On an open store whose table exists, with a non-empty index
  field and an \<open>onProgress\<close> callback, \<open>bulkDelete\<close> returns and has invoked
  \<open>onProgress\<close> exactly once; the total is the number of rows whose index field equals
  the key; without \<open>filterKeys\<close> the completed count is the total; with \<open>filterKeys\<close> it
  is the number of keys that \<open>filterKeys\<close> returned (0 when no row matches). When no row
  matches, the one invocation is \<open>(0, 0)\<close> and the store is unchanged.
\<close>

theorem bulkDelete_progress:
  assumes "handle db \<noteq> None" and "map_of (tables (disk db)) tableName = Some t"
    and "ix \<noteq> []"
  shows "\<exists>db' completed.
           bulkDelete db tableName (Some ix) query (map_option pure_filter filterKeys)
               (Some log_progress) []
             = Inr (db', [(completed, length (filter (\<lambda>r. sql_eq (get_prop (snd r) ix) query) (rows t)))])
           \<and> completed =
               (case filterKeys of
                  None \<Rightarrow> length (filter (\<lambda>r. sql_eq (get_prop (snd r) ix) query) (rows t))
                | Some f \<Rightarrow>
                    if filter (\<lambda>r. sql_eq (get_prop (snd r) ix) query) (rows t) = [] then 0
                    else length (f (map fst (filter (\<lambda>r. sql_eq (get_prop (snd r) ix) query) (rows t)))))
           \<and> (filter (\<lambda>r. sql_eq (get_prop (snd r) ix) query) (rows t) = []
                \<longrightarrow> completed = 0 \<and> db' = db)"
proof (cases filterKeys)
  case None
  then show ?thesis
    by (simp add: bulkDelete_matched [OF assms] call_onProgress_def log_progress_def)
next
  case (Some f)
  then show ?thesis
    by (simp add: bulkDelete_matched [OF assms] call_onProgress_def log_progress_def pure_filter_def)
qed

text \<open>
  The theorem on the tagMeta table of the sample store, whose two rows are named \<open>n\<close>
  and none \<open>z\<close>.
\<close>

theorem bulkDelete_progress_witness:
  "(\<exists>db'. bulkDelete sample_db ''tagMeta'' (Some ''name'') (JStr [110]) (Some (pure_filter (take 1)))
            (Some log_progress) [] = Inr (db', [(1, 2)]))
   \<and> (\<exists>db'. bulkDelete sample_db ''tagMeta'' (Some ''name'') (JStr [110]) None
            (Some log_progress) [] = Inr (db', [(2, 2)]))
   \<and> bulkDelete sample_db ''tagMeta'' (Some ''name'') (JStr [122]) None
            (Some log_progress) [] = Inr (sample_db, [(0, 0)])"
proof -
  let ?t = "\<lparr>autoIncrement = True, rows = sample_tagMeta\<rparr>"
  have h1: "handle sample_db \<noteq> None"
    by (simp add: sample_db_def)
  have h2: "map_of (tables (disk sample_db)) ''tagMeta'' = Some ?t"
    by (simp add: sample_db_def sample_tables_def)
  have h3: "''name'' \<noteq> []"
    by simp
  have n: "filter (\<lambda>r. sql_eq (get_prop (snd r) ''name'') (JStr [110])) sample_tagMeta = sample_tagMeta"
    by (simp add: sample_tagMeta_def get_prop_def)
  have z: "filter (\<lambda>r. sql_eq (get_prop (snd r) ''name'') (JStr [122])) sample_tagMeta = []"
    by (simp add: sample_tagMeta_def get_prop_def)
  have len: "length sample_tagMeta = 2" "sample_tagMeta \<noteq> []" "length (take (Suc 0) (map fst sample_tagMeta)) = Suc 0"
    by (simp_all add: sample_tagMeta_def)
  from bulkDelete_progress [OF h1 h2 h3, of "JStr [110]" "Some (take 1)"]
  have a: "\<exists>db'. bulkDelete sample_db ''tagMeta'' (Some ''name'') (JStr [110]) (Some (pure_filter (take 1)))
            (Some log_progress) [] = Inr (db', [(1, 2)])"
    by (simp add: n len)
  from bulkDelete_progress [OF h1 h2 h3, of "JStr [110]" None]
  have b: "\<exists>db'. bulkDelete sample_db ''tagMeta'' (Some ''name'') (JStr [110]) None
            (Some log_progress) [] = Inr (db', [(2, 2)])"
    by (simp add: n len)
  from bulkDelete_progress [OF h1 h2 h3, of "JStr [122]" None]
  have c: "bulkDelete sample_db ''tagMeta'' (Some ''name'') (JStr [122]) None
            (Some log_progress) [] = Inr (sample_db, [(0, 0)])"
    by (simp add: z)
  from a b c show ?thesis by blast
qed

text \<open>
  C5 as stated fails: a \<open>filterKeys\<close> that keeps the first of the two matching keys makes
  the call delete one row and report \<open>(1, 2)\<close> in its only invocation.
\<close>

theorem bulkDelete_narrowed_counterexample:
  "map_sum id snd
     (bulkDelete sample_db ''tagMeta'' (Some ''name'') (JStr [110]) (Some (pure_filter (take 1)))
        (Some log_progress) [])
   = Inr [(1, 2)]"
  by (simp add: bulkDelete_def execute_select_def execute_delete_def call_onProgress_def
      log_progress_def pure_filter_def get_prop_def sample_defs)

section \<open>C3: deleting a dictionary\<close>

lemma sql_eq_JStr: "sql_eq v (JStr n) \<longleftrightarrow> v = Some (JStr n)"
  by (cases "(v, JStr n)" rule: sql_eq.cases) auto

lemma execute_delete_tables:
  assumes "map_of (tables (disk db)) tn = Some t"
  shows "map_of (tables (disk (execute_delete db tn cond)))
           = (map_of (tables (disk db)))(tn \<mapsto> t\<lparr>rows := filter (\<lambda>r. \<not> cond r) (rows t)\<rparr>)"
    and "handle (execute_delete db tn cond) = handle db"
    and "journal (disk (execute_delete db tn cond))
           = journal (disk db) @ [DeleteFrom tn (map fst (filter cond (rows t)))]"
  using assms by (simp_all add: execute_delete_def update_conv')

lemma bulkDelete_dd:
  assumes op: "handle db \<noteq> None" and tb: "map_of (tables (disk db)) tn = Some t"
    and ix: "ix \<noteq> []"
  shows "\<exists>db' pd' t'.
       bulkDelete db tn (Some ix) (JStr name) (Some dd_filterKeys) (Some onProgressWrapper) pd
         = Inr (db', pd')
     \<and> handle db' = handle db
     \<and> (\<forall>tn'. tn' \<noteq> tn \<longrightarrow> map_of (tables (disk db')) tn' = map_of (tables (disk db)) tn')
     \<and> map_of (tables (disk db')) tn = Some t'
     \<and> set (rows t') \<subseteq> set (rows t)
     \<and> list_all (\<lambda>r. get_prop (snd r) ix \<noteq> Some (JStr name)) (rows t')
     \<and> (distinct (map fst (rows t))
          \<longrightarrow> rows t' = filter (\<lambda>r. get_prop (snd r) ix \<noteq> Some (JStr name)) (rows t))
     \<and> (\<exists>J. journal (disk db') = journal (disk db) @ J \<and> list_all (\<lambda>s. \<exists>ids. s = DeleteFrom tn ids) J)"
proof -
  let ?m = "\<lambda>r :: int \<times> document. sql_eq (get_prop (snd r) ix) (JStr name)"
  let ?matched = "filter ?m (rows t)"
  show ?thesis
  proof (cases "?matched = []")
    case True
    then have none: "list_all (\<lambda>r. get_prop (snd r) ix \<noteq> Some (JStr name)) (rows t)"
      by (auto simp: filter_empty_conv list_all_iff sql_eq_JStr)
    then have "filter (\<lambda>r. get_prop (snd r) ix \<noteq> Some (JStr name)) (rows t) = rows t"
      by (auto simp: list_all_iff)
    then show ?thesis
      using True tb none by (simp add: bulkDelete_matched [OF op tb ix])
  next
    case False
    let ?keys = "map fst ?matched"
    let ?db' = "execute_delete db tn (\<lambda>r. fst r \<in> set ?keys)"
    let ?t' = "t\<lparr>rows := filter (\<lambda>r. \<not> fst r \<in> set ?keys) (rows t)\<rparr>"
    have run: "bulkDelete db tn (Some ix) (JStr name) (Some dd_filterKeys) (Some onProgressWrapper) pd
         = Inr (?db', call_onProgress (Some onProgressWrapper)
                  (snd (dd_filterKeys pd ?keys)) (length ?keys) (length ?matched))"
      using False by (simp add: bulkDelete_matched [OF op tb ix] dd_filterKeys_def)
    have clean: "list_all (\<lambda>r. get_prop (snd r) ix \<noteq> Some (JStr name)) (rows ?t')"
    proof -
      have "get_prop (snd r) ix \<noteq> Some (JStr name)"
        if "r \<in> set (rows t)" "fst r \<notin> set ?keys" for r
      proof
        assume "get_prop (snd r) ix = Some (JStr name)"
        then have "r \<in> set ?matched" using that(1) by (simp add: sql_eq_JStr)
        then have "fst r \<in> set ?keys" by (simp only: set_map) (rule imageI)
        then show False using that(2) by contradiction
      qed
      then show ?thesis by (auto simp: list_all_iff)
    qed
    have keep: "rows ?t' = filter (\<lambda>r. get_prop (snd r) ix \<noteq> Some (JStr name)) (rows t)"
      if d: "distinct (map fst (rows t))"
    proof -
      have "(fst r \<notin> set ?keys) = (get_prop (snd r) ix \<noteq> Some (JStr name))"
        if r: "r \<in> set (rows t)" for r
      proof
        assume "fst r \<notin> set ?keys"
        then show "get_prop (snd r) ix \<noteq> Some (JStr name)"
          using clean r by (auto simp: list_all_iff)
      next
        assume n: "get_prop (snd r) ix \<noteq> Some (JStr name)"
        show "fst r \<notin> set ?keys"
        proof
          assume "fst r \<in> set ?keys"
          then obtain r' where r': "r' \<in> set (rows t)" "?m r'" "fst r' = fst r" by auto
          then have "r' = r"
            using d r by (metis eq_key_imp_eq_value prod.collapse)
          then show False using r'(2) n by (simp add: sql_eq_JStr)
        qed
      qed
      then have "filter (\<lambda>r. \<not> fst r \<in> set ?keys) (rows t)
                   = filter (\<lambda>r. get_prop (snd r) ix \<noteq> Some (JStr name)) (rows t)"
        by (intro filter_cong refl) simp
      then show ?thesis by simp
    qed
    have "\<exists>J. journal (disk ?db') = journal (disk db) @ J \<and> list_all (\<lambda>s. \<exists>ids. s = DeleteFrom tn ids) J"
      by (simp add: execute_delete_tables(3) [OF tb])
    moreover have "set (rows ?t') \<subseteq> set (rows t)" by auto
    moreover have "map_of (tables (disk ?db')) tn = Some ?t'"
      by (simp add: execute_delete_tables(1) [OF tb])
    moreover have "\<forall>tn'. tn' \<noteq> tn \<longrightarrow> map_of (tables (disk ?db')) tn' = map_of (tables (disk db)) tn'"
      by (simp add: execute_delete_tables(1) [OF tb])
    moreover have "handle ?db' = handle db"
      by (rule execute_delete_tables(2) [OF tb])
    ultimately show ?thesis
      using run clean keep by blast
  qed
qed

lemma delete_targets_ok:
  assumes "handle db \<noteq> None"
    and "\<forall>tg\<in>set targets. map_of (tables (disk db)) (fst tg) \<noteq> None \<and> snd tg \<noteq> []"
    and "distinct (map fst targets)"
  shows "\<exists>db' pd' J.
      delete_targets name targets (db, pd, errs) = (db', pd', errs)
    \<and> handle db' = handle db
    \<and> (\<forall>tn'. tn' \<notin> fst ` set targets
          \<longrightarrow> map_of (tables (disk db')) tn' = map_of (tables (disk db)) tn')
    \<and> (\<forall>tg\<in>set targets. rows_deleted db db' name tg)
    \<and> journal (disk db') = journal (disk db) @ J
    \<and> list_all (\<lambda>s. \<exists>tn ids. s = DeleteFrom tn ids \<and> tn \<in> fst ` set targets) J"
  using assms
proof (induction targets arbitrary: db pd)
  case Nil
  then show ?case by simp
next
  case (Cons tg targets)
  obtain tn ix where tg: "tg = (tn, ix)" by (cases tg)
  from Cons.prems(2) tg obtain t where t: "map_of (tables (disk db)) tn = Some t" and ix: "ix \<noteq> []"
    by auto
  from bulkDelete_dd [OF Cons.prems(1) t ix, of name pd]
  obtain db1 pd1 t1 J1 where step:
    "bulkDelete db tn (Some ix) (JStr name) (Some dd_filterKeys) (Some onProgressWrapper) pd = Inr (db1, pd1)"
    "handle db1 = handle db"
    "\<forall>tn'. tn' \<noteq> tn \<longrightarrow> map_of (tables (disk db1)) tn' = map_of (tables (disk db)) tn'"
    "map_of (tables (disk db1)) tn = Some t1"
    "set (rows t1) \<subseteq> set (rows t)"
    "list_all (\<lambda>r. get_prop (snd r) ix \<noteq> Some (JStr name)) (rows t1)"
    "distinct (map fst (rows t)) \<longrightarrow> rows t1 = filter (\<lambda>r. get_prop (snd r) ix \<noteq> Some (JStr name)) (rows t)"
    "journal (disk db1) = journal (disk db) @ J1" "list_all (\<lambda>s. \<exists>ids. s = DeleteFrom tn ids) J1"
    by blast
  have notin: "tn \<notin> fst ` set targets"
    using Cons.prems(3) tg by simp
  have h1: "handle db1 \<noteq> None" using step(2) Cons.prems(1) by simp
  have e1: "\<forall>tg\<in>set targets. map_of (tables (disk db1)) (fst tg) \<noteq> None \<and> snd tg \<noteq> []"
    using Cons.prems(2) step(3) notin by (metis image_eqI list.set_intros(2))
  have d1: "distinct (map fst targets)" using Cons.prems(3) by simp
  from Cons.IH [OF h1 e1 d1, of pd1]
  obtain db' pd' J where rest:
    "delete_targets name targets (db1, pd1, errs) = (db', pd', errs)"
    "handle db' = handle db1"
    "\<forall>tn'. tn' \<notin> fst ` set targets \<longrightarrow> map_of (tables (disk db')) tn' = map_of (tables (disk db1)) tn'"
    "\<forall>tg\<in>set targets. rows_deleted db1 db' name tg"
    "journal (disk db') = journal (disk db1) @ J"
    "list_all (\<lambda>s. \<exists>tn ids. s = DeleteFrom tn ids \<and> tn \<in> fst ` set targets) J"
    by blast
  have run: "delete_targets name (tg # targets) (db, pd, errs) = (db', pd', errs)"
    using tg step(1) rest(1) by simp
  have others: "\<forall>tn'. tn' \<notin> fst ` set (tg # targets)
          \<longrightarrow> map_of (tables (disk db')) tn' = map_of (tables (disk db)) tn'"
    using rest(3) step(3) tg by simp
  have head: "rows_deleted db db' name tg"
    unfolding rows_deleted_def
    using t step(4,5,6,7) rest(3) notin tg by auto
  have tail: "rows_deleted db db' name tg'" if "tg' \<in> set targets" for tg'
  proof -
    have "fst tg' \<noteq> tn" using that notin by auto
    then have "map_of (tables (disk db1)) (fst tg') = map_of (tables (disk db)) (fst tg')"
      using step(3) by simp
    moreover have "rows_deleted db1 db' name tg'"
      using rest(4) that by blast
    ultimately show ?thesis
      unfolding rows_deleted_def by metis
  qed
  have jr: "journal (disk db') = journal (disk db) @ (J1 @ J)"
    using rest(5) step(8) by simp
  have jl: "list_all (\<lambda>s. \<exists>tn ids. s = DeleteFrom tn ids \<and> tn \<in> fst ` set (tg # targets)) (J1 @ J)"
    unfolding list_all_iff
  proof
    fix s assume "s \<in> set (J1 @ J)"
    then consider "s \<in> set J1" | "s \<in> set J" by auto
    then show "\<exists>tn ids. s = DeleteFrom tn ids \<and> tn \<in> fst ` set (tg # targets)"
    proof cases
      case 1
      then obtain ids where "s = DeleteFrom tn ids"
        using step(9) unfolding list_all_iff by blast
      moreover have "tn \<in> fst ` set (tg # targets)" using tg by simp
      ultimately show ?thesis by blast
    next
      case 2
      then obtain tn' ids where "s = DeleteFrom tn' ids" "tn' \<in> fst ` set targets"
        using rest(6) unfolding list_all_iff by blast
      then show ?thesis by auto
    qed
  qed
  have all: "\<forall>tg'\<in>set (tg # targets). rows_deleted db db' name tg'"
    using head tail by simp
  have hd': "handle db' = handle db"
    using rest(2) step(2) by simp
  from run hd' others all jr jl show ?case
    by blast
qed

lemma rows_deleted_no_rows_with:
  "rows_deleted db db' name tg \<Longrightarrow> no_rows_with db' (fst tg) (snd tg) name"
  by (auto simp: rows_deleted_def no_rows_with_def)

lemma rows_deleted_cong:
  assumes "rows_deleted db1 db2 name tg"
    and "map_of (tables (disk db)) (fst tg) = map_of (tables (disk db1)) (fst tg)"
    and "map_of (tables (disk db')) (fst tg) = map_of (tables (disk db2)) (fst tg)"
  shows "rows_deleted db db' name tg"
  using assms unfolding rows_deleted_def by metis

text \<open>
  C3. On an open store that has the seven tables, \<open>deleteDictionary\<close> completes with
  nothing logged, and afterwards no row of kanji, kanjiMeta, terms, termMeta, tagMeta or
  media has the dictionary \<open>name\<close> and no row of dictionaries has the title \<open>name\<close>,
  whichever of the tables had such rows; where the ids of a table are distinct, its other
  rows are all kept. In whatever order the deletions of each group get to run, the
  statements executed are deletions from the six content tables followed by deletions from
  dictionaries: the second group starts when the first has completed. On a store that is
  not open the call completes as well: every \<open>bulkDelete\<close> throws, the failure of each
  group is caught and logged, and the store is left as it was.
\<close>

theorem deleteDictionary_removes_dictionary:
  "(handle db \<noteq> None
      \<and> list_all (\<lambda>tn. map_of (tables (disk db)) tn \<noteq> None)
           [''kanji'', ''kanjiMeta'', ''terms'', ''termMeta'', ''tagMeta'', ''media'', ''dictionaries'']
    \<longrightarrow> dictionary_deleted db name (deleteDictionary db name progressRate)
        \<and> (\<forall>orders. list_all2 (\<lambda>order targets. distinct order \<and> set order = set targets)
                        orders targetGroups
              \<longrightarrow> dictionary_deleted db name (deleteDictionary_in orders db name progressRate)))
   \<and> (handle db = None
    \<longrightarrow> deleteDictionary db name progressRate
          = (db, \<lparr>count = 0, processed = 0, storeCount = 7, storesProcesed = 0\<rparr>,
             [DatabaseNotOpen, DatabaseNotOpen]))"
proof -
  have closed_store: "handle db = None
    \<longrightarrow> deleteDictionary db name progressRate
          = (db, \<lparr>count = 0, processed = 0, storeCount = 7, storesProcesed = 0\<rparr>,
             [DatabaseNotOpen, DatabaseNotOpen])"
  proof
  assume closed: "handle db = None"
  have b: "bulkDelete db tn (Some ix) (JStr name) (Some dd_filterKeys) (Some onProgressWrapper) pd
             = Inl DatabaseNotOpen" for tn ix pd
    using closed by (simp add: bulkDelete_def)
  show "deleteDictionary db name progressRate
          = (db, \<lparr>count = 0, processed = 0, storeCount = 7, storesProcesed = 0\<rparr>,
             [DatabaseNotOpen, DatabaseNotOpen])"
    by (simp add: deleteDictionary_def deleteDictionary_in_def targetGroups_def Let_def b)
  qed
  have open_store: "handle db \<noteq> None
      \<and> list_all (\<lambda>tn. map_of (tables (disk db)) tn \<noteq> None)
           [''kanji'', ''kanjiMeta'', ''terms'', ''termMeta'', ''tagMeta'', ''media'', ''dictionaries'']
    \<longrightarrow> dictionary_deleted db name (deleteDictionary db name progressRate)
        \<and> (\<forall>orders. list_all2 (\<lambda>order targets. distinct order \<and> set order = set targets)
                        orders targetGroups
              \<longrightarrow> dictionary_deleted db name (deleteDictionary_in orders db name progressRate))"
  proof
  assume a: "handle db \<noteq> None
      \<and> list_all (\<lambda>tn. map_of (tables (disk db)) tn \<noteq> None)
           [''kanji'', ''kanjiMeta'', ''terms'', ''termMeta'', ''tagMeta'', ''media'', ''dictionaries'']"
  then have op: "handle db \<noteq> None" and ex: "list_all (\<lambda>tn. map_of (tables (disk db)) tn \<noteq> None)
           [''kanji'', ''kanjiMeta'', ''terms'', ''termMeta'', ''tagMeta'', ''media'', ''dictionaries'']"
    by simp_all
  define g1 where "g1 = [(''kanji'', ''dictionary''), (''kanjiMeta'', ''dictionary''),
      (''terms'', ''dictionary''), (''termMeta'', ''dictionary''), (''tagMeta'', ''dictionary''),
      (''media'', ''dictionary'')]"
  define g2 where "g2 = [(''dictionaries'', ''title'')]"
  define pd0 where "pd0 = \<lparr>count = 0, processed = 0, storeCount = sum_list (map length targetGroups),
      storesProcesed = 0\<rparr>"
  have groups: "targetGroups = [g1, g2]"
    by (simp add: targetGroups_def g1_def g2_def)
  have names1: "fst ` set g1 = set [''kanji'', ''kanjiMeta'', ''terms'', ''termMeta'', ''tagMeta'', ''media'']"
    by (simp add: g1_def)
  have names2: "fst ` set g2 = {''dictionaries''}"
    by (simp add: g2_def)
  have main: "dictionary_deleted db name (deleteDictionary_in orders db name progressRate)"
    if perm: "list_all2 (\<lambda>order targets. distinct order \<and> set order = set targets) orders targetGroups"
    for orders
  proof -
    from perm obtain o1 o2 where orders: "orders = [o1, o2]"
      and p1: "distinct o1" "set o1 = set g1" and p2: "distinct o2" "set o2 = set g2"
      unfolding groups by (auto simp: list_all2_Cons2)
    have e1: "\<forall>tg\<in>set o1. map_of (tables (disk db)) (fst tg) \<noteq> None \<and> snd tg \<noteq> []"
      using ex unfolding p1(2) by (simp add: g1_def)
    have "inj_on fst (set g1)"
      by (simp add: g1_def)
    then have d1: "distinct (map fst o1)"
      using p1 by (simp add: distinct_map)
    from delete_targets_ok [OF op e1 d1, of name pd0 "[]"]
    obtain db1 pd1 J1 where r1:
      "delete_targets name o1 (db, pd0, []) = (db1, pd1, [])"
      "handle db1 = handle db"
      "\<forall>tn'. tn' \<notin> fst ` set o1 \<longrightarrow> map_of (tables (disk db1)) tn' = map_of (tables (disk db)) tn'"
      "\<forall>tg\<in>set o1. rows_deleted db db1 name tg"
      "journal (disk db1) = journal (disk db) @ J1"
      "list_all (\<lambda>s. \<exists>tn ids. s = DeleteFrom tn ids \<and> tn \<in> fst ` set o1) J1"
      by blast
    have dn: "''dictionaries'' \<notin> fst ` set o1"
      unfolding p1(2) by (simp add: g1_def)
    have same_d: "map_of (tables (disk db1)) ''dictionaries'' = map_of (tables (disk db)) ''dictionaries''"
      using r1(3) dn by blast
    have op1: "handle db1 \<noteq> None" using r1(2) op by simp
    have e2: "\<forall>tg\<in>set o2. map_of (tables (disk db1)) (fst tg) \<noteq> None \<and> snd tg \<noteq> []"
      using ex same_d unfolding p2(2) by (simp add: g2_def)
    have "inj_on fst (set g2)"
      by (simp add: g2_def)
    then have d2: "distinct (map fst o2)"
      using p2 by (simp add: distinct_map)
    from delete_targets_ok [OF op1 e2 d2, of name pd1 "[]"]
    obtain db' pd' J2 where r2:
      "delete_targets name o2 (db1, pd1, []) = (db', pd', [])"
      "\<forall>tn'. tn' \<notin> fst ` set o2 \<longrightarrow> map_of (tables (disk db')) tn' = map_of (tables (disk db1)) tn'"
      "\<forall>tg\<in>set o2. rows_deleted db1 db' name tg"
      "journal (disk db') = journal (disk db1) @ J2"
      "list_all (\<lambda>s. \<exists>tn ids. s = DeleteFrom tn ids \<and> tn \<in> fst ` set o2) J2"
      by blast
    have run: "deleteDictionary_in orders db name progressRate = (db', pd', [])"
      using r1(1) r2(1) by (simp add: deleteDictionary_in_def orders pd0_def Let_def)
    have del1: "rows_deleted db db' name tg" if "tg \<in> set g1" for tg
    proof -
      have "fst tg \<notin> fst ` set o2"
        using that unfolding p2(2) by (auto simp: names2 g1_def)
      then have "map_of (tables (disk db')) (fst tg) = map_of (tables (disk db1)) (fst tg)"
        using r2(2) by blast
      moreover have "rows_deleted db db1 name tg" using r1(4) that p1(2) by blast
      ultimately show ?thesis by (intro rows_deleted_cong [of db db1 name tg db db']) simp_all
    qed
    have del2: "rows_deleted db db' name tg" if "tg \<in> set g2" for tg
    proof -
      have "fst tg = ''dictionaries''" using that by (simp add: g2_def)
      moreover have "rows_deleted db1 db' name tg" using r2(3) that p2(2) by blast
      ultimately show ?thesis using same_d
        by (intro rows_deleted_cong [of db1 db' name tg db db']) simp_all
    qed
    have all: "list_all (rows_deleted db db' name) (concat targetGroups)"
      using del1 del2 by (auto simp: groups list_all_iff)
    have content: "list_all (\<lambda>tn. no_rows_with db' tn ''dictionary'' name)
           [''kanji'', ''kanjiMeta'', ''terms'', ''termMeta'', ''tagMeta'', ''media'']"
    proof -
      have "\<forall>tg\<in>set g1. no_rows_with db' (fst tg) (snd tg) name"
        using del1 rows_deleted_no_rows_with by blast
      then show ?thesis by (simp add: g1_def)
    qed
    have manifest: "no_rows_with db' ''dictionaries'' ''title'' name"
      using rows_deleted_no_rows_with [OF del2 [of "(''dictionaries'', ''title'')"]]
      by (simp add: g2_def)
    have j: "journal (disk db') = journal (disk db) @ J1 @ J2"
      using r1(5) r2(4) by simp
    have j1: "list_all (\<lambda>s. \<exists>tn ids. s = DeleteFrom tn ids
                         \<and> tn \<in> set [''kanji'', ''kanjiMeta'', ''terms'', ''termMeta'', ''tagMeta'', ''media'']) J1"
      using r1(6) unfolding p1(2) names1 .
    have j2: "list_all (\<lambda>s. \<exists>ids. s = DeleteFrom ''dictionaries'' ids) J2"
      using r2(5) unfolding p2(2) names2 by (simp add: list_all_iff)
    have jj: "\<exists>J1 J2. journal (disk db') = journal (disk db) @ J1 @ J2
                \<and> list_all (\<lambda>s. \<exists>tn ids. s = DeleteFrom tn ids
                                  \<and> tn \<in> set [''kanji'', ''kanjiMeta'', ''terms'', ''termMeta'',
                                               ''tagMeta'', ''media'']) J1
                \<and> list_all (\<lambda>s. \<exists>ids. s = DeleteFrom ''dictionaries'' ids) J2"
      using j j1 j2 by blast
    show ?thesis
      unfolding run dictionary_deleted_def prod.case
      using content manifest all jj by (intro conjI refl)
  qed
  have self: "list_all2 (\<lambda>order targets. distinct order \<and> set order = set targets)
                targetGroups targetGroups"
    by (simp add: targetGroups_def)
  show "dictionary_deleted db name (deleteDictionary db name progressRate)
        \<and> (\<forall>orders. list_all2 (\<lambda>order targets. distinct order \<and> set order = set targets)
                        orders targetGroups
              \<longrightarrow> dictionary_deleted db name (deleteDictionary_in orders db name progressRate))"
    unfolding deleteDictionary_def using main self by blast
  qed
  from open_store closed_store show ?thesis by (rule conjI)
qed

lemma sample_deleteDictionary_journal:
  "journal (disk (fst (deleteDictionary sample_db dictA 1000)))
     = [DeleteFrom ''kanjiMeta'' [1], DeleteFrom ''terms'' [1], DeleteFrom ''termMeta'' [1, 2],
        DeleteFrom ''tagMeta'' [1], DeleteFrom ''dictionaries'' [1]]"
  by (simp add: deleteDictionary_def deleteDictionary_in_def targetGroups_def bulkDelete_def execute_select_def
      execute_delete_def dd_filterKeys_def onProgressWrapper_def call_onProgress_def get_prop_def Let_def
      sample_defs)

lemma sample_deleteDictionary_in_journal:
  "journal (disk (fst (deleteDictionary_in sample_delete_orders sample_db dictA 1000)))
     = [DeleteFrom ''tagMeta'' [1], DeleteFrom ''termMeta'' [1, 2], DeleteFrom ''terms'' [1],
        DeleteFrom ''kanjiMeta'' [1], DeleteFrom ''dictionaries'' [1]]"
  by (simp add: deleteDictionary_in_def sample_delete_orders_def targetGroups_def bulkDelete_def
      execute_select_def execute_delete_def dd_filterKeys_def onProgressWrapper_def
      call_onProgress_def get_prop_def Let_def sample_defs)

text \<open>
  The theorem at the sample store, where kanji and media hold no row at all and the
  other tables hold rows of the dictionary A: with the deletions in the order of their
  creation, with those of the first group in the reverse order, and on the store closed.
\<close>

theorem deleteDictionary_removes_dictionary_witness:
  "dictionary_deleted sample_db dictA (deleteDictionary sample_db dictA 1000)
   \<and> journal (disk (fst (deleteDictionary sample_db dictA 1000)))
       = [DeleteFrom ''kanjiMeta'' [1], DeleteFrom ''terms'' [1], DeleteFrom ''termMeta'' [1, 2],
          DeleteFrom ''tagMeta'' [1], DeleteFrom ''dictionaries'' [1]]
   \<and> dictionary_deleted sample_db dictA
        (deleteDictionary_in sample_delete_orders sample_db dictA 1000)
   \<and> journal (disk (fst (deleteDictionary_in sample_delete_orders sample_db dictA 1000)))
       = [DeleteFrom ''tagMeta'' [1], DeleteFrom ''termMeta'' [1, 2], DeleteFrom ''terms'' [1],
          DeleteFrom ''kanjiMeta'' [1], DeleteFrom ''dictionaries'' [1]]
   \<and> deleteDictionary (sample_db\<lparr>handle := None\<rparr>) dictA 1000
       = (sample_db\<lparr>handle := None\<rparr>,
          \<lparr>count = 0, processed = 0, storeCount = 7, storesProcesed = 0\<rparr>,
          [DatabaseNotOpen, DatabaseNotOpen])"
proof -
  have h: "handle sample_db \<noteq> None
      \<and> list_all (\<lambda>tn. map_of (tables (disk sample_db)) tn \<noteq> None)
           [''kanji'', ''kanjiMeta'', ''terms'', ''termMeta'', ''tagMeta'', ''media'', ''dictionaries'']"
    by (simp add: sample_db_def sample_tables_def)
  have p: "list_all2 (\<lambda>order targets. distinct order \<and> set order = set targets)
             sample_delete_orders targetGroups"
    by (auto simp: sample_delete_orders_def targetGroups_def)
  have c: "handle (sample_db\<lparr>handle := None\<rparr>) = None"
    by simp
  note open_store = deleteDictionary_removes_dictionary
      [of sample_db dictA 1000, THEN conjunct1, rule_format, OF h]
  note closed_store = deleteDictionary_removes_dictionary
      [of "sample_db\<lparr>handle := None\<rparr>" dictA 1000, THEN conjunct2, rule_format, OF c]
  show ?thesis
  proof (intro conjI)
    show "dictionary_deleted sample_db dictA (deleteDictionary sample_db dictA 1000)"
      by (rule open_store [THEN conjunct1])
    show "dictionary_deleted sample_db dictA
            (deleteDictionary_in sample_delete_orders sample_db dictA 1000)"
      by (rule open_store [THEN conjunct2, rule_format, OF p])
    show "journal (disk (fst (deleteDictionary sample_db dictA 1000)))
       = [DeleteFrom ''kanjiMeta'' [1], DeleteFrom ''terms'' [1], DeleteFrom ''termMeta'' [1, 2],
          DeleteFrom ''tagMeta'' [1], DeleteFrom ''dictionaries'' [1]]"
      by (rule sample_deleteDictionary_journal)
    show "journal (disk (fst (deleteDictionary_in sample_delete_orders sample_db dictA 1000)))
       = [DeleteFrom ''tagMeta'' [1], DeleteFrom ''termMeta'' [1, 2], DeleteFrom ''terms'' [1],
          DeleteFrom ''kanjiMeta'' [1], DeleteFrom ''dictionaries'' [1]]"
      by (rule sample_deleteDictionary_in_journal)
    show "deleteDictionary (sample_db\<lparr>handle := None\<rparr>) dictA 1000
       = (sample_db\<lparr>handle := None\<rparr>,
          \<lparr>count = 0, processed = 0, storeCount = 7, storesProcesed = 0\<rparr>,
          [DatabaseNotOpen, DatabaseNotOpen])"
      by (rule closed_store)
  qed
qed

text \<open>
  The sample store closed: the call completes, and the rows of the dictionary A are still
  there.
\<close>

theorem deleteDictionary_closed_counterexample:
  "close_db sample_db = Inr (sample_db\<lparr>handle := None\<rparr>)
   \<and> deleteDictionary (sample_db\<lparr>handle := None\<rparr>) dictA 1000
       = (sample_db\<lparr>handle := None\<rparr>,
          \<lparr>count = 0, processed = 0, storeCount = 7, storesProcesed = 0\<rparr>,
          [DatabaseNotOpen, DatabaseNotOpen])
   \<and> \<not> no_rows_with (sample_db\<lparr>handle := None\<rparr>) ''terms'' ''dictionary'' dictA
   \<and> \<not> no_rows_with (sample_db\<lparr>handle := None\<rparr>) ''dictionaries'' ''title'' dictA"
  by (simp add: close_db_def deleteDictionary_def deleteDictionary_in_def targetGroups_def
      bulkDelete_def no_rows_with_def get_prop_def Let_def sample_defs)


section \<open>C6: the counts of getDictionaryCounts\<close>

text \<open>
  What \<open>bulkCount\<close> returns on an open store: an operation without a query counts the
  whole table, and so does one whose query is the empty string, which \<open>op.query ? ... : ...\<close>
  takes for no query; any other query counts the rows whose column equals it.
\<close>

lemma count_one_result:
  assumes "handle db \<noteq> None" and "map_of (tables (disk db)) (op_table operation) \<noteq> None"
  shows "count_one db operation
     = Inr (case op_query operation of
              None \<Rightarrow> length (table_rows db (op_table operation))
            | Some q \<Rightarrow> if q = [] then length (table_rows db (op_table operation))
                        else count_rows db (op_table operation) (op_column operation) q)"
  using assms
  by (auto simp: count_one_def execute_select_def table_rows_def count_rows_def sql_eq_JStr
      split: option.splits)

lemma bulkCount_result:
  assumes "handle db \<noteq> None"
    and "\<forall>operation\<in>set ops. map_of (tables (disk db)) (op_table operation) \<noteq> None"
  shows "bulkCount db ops
     = Inr (map (\<lambda>operation.
                   case op_query operation of
                     None \<Rightarrow> length (table_rows db (op_table operation))
                   | Some q \<Rightarrow> if q = [] then length (table_rows db (op_table operation))
                               else count_rows db (op_table operation) (op_column operation) q)
            ops)"
  using assms(2)
proof (induction ops)
  case Nil
  show ?case by simp
next
  case (Cons operation ops)
  have "map_of (tables (disk db)) (op_table operation) \<noteq> None"
    using Cons.prems by simp
  from count_one_result [OF assms(1) this] Cons.IH Cons.prems
  show ?case by simp
qed

lemma fill_group_window:
  "fill_group (pre @ map g count_tables @ post) count_tables ([], length pre)
     = (map (\<lambda>t. (fst t, Some (g t))) count_tables, length pre + 6)"
  by (simp add: count_tables_def at_index_def nth_append)

lemma fill_counts_window:
  "fill_counts (pre @ concat (map (\<lambda>name. map (g name) count_tables) names) @ post) names
       (groups, length pre)
     = (groups @ map (\<lambda>name. map (\<lambda>t. (fst t, Some (g name t))) count_tables) names,
        length pre + 6 * length names)"
proof (induction names arbitrary: pre groups)
  case Nil
  show ?case by simp
next
  case (Cons name names)
  let ?six = "map (g name) count_tables"
  let ?rest = "concat (map (\<lambda>name. map (g name) count_tables) names)"
  have raw: "pre @ concat (map (\<lambda>name. map (g name) count_tables) (name # names)) @ post
               = pre @ ?six @ (?rest @ post)"
    by simp
  have raw': "pre @ ?six @ (?rest @ post) = (pre @ ?six) @ ?rest @ post"
    by simp
  have len: "length pre + 6 = length (pre @ ?six)"
    by (simp add: count_tables_def)
  have g1: "fill_group (pre @ ?six @ (?rest @ post)) count_tables ([], length pre)
              = (map (\<lambda>t. (fst t, Some (g name t))) count_tables, length (pre @ ?six))"
    unfolding len [symmetric] by (rule fill_group_window)
  have "fill_counts (pre @ ?six @ (?rest @ post)) (name # names) (groups, length pre)
          = fill_counts ((pre @ ?six) @ ?rest @ post) names
              (groups @ [map (\<lambda>t. (fst t, Some (g name t))) count_tables], length (pre @ ?six))"
  proof -
    have g1': "fill_group ((pre @ ?six) @ ?rest @ post) count_tables ([], length pre)
              = (map (\<lambda>t. (fst t, Some (g name t))) count_tables, length (pre @ ?six))"
      using g1 by (simp only: raw')
    show ?thesis
      by (simp only: raw' fill_counts.simps g1' prod.case)
  qed
  also have "\<dots> = ((groups @ [map (\<lambda>t. (fst t, Some (g name t))) count_tables])
                     @ map (\<lambda>name. map (\<lambda>t. (fst t, Some (g name t))) count_tables) names,
                   length (pre @ ?six) + 6 * length names)"
    by (rule Cons.IH)
  finally show ?case
    unfolding raw using len by simp
qed

lemma getDictionaryCounts_result:
  assumes op: "handle db \<noteq> None"
    and ex: "\<forall>t\<in>set count_tables. map_of (tables (disk db)) (fst t) \<noteq> None"
  shows "getDictionaryCounts db names getTotal
     = Inr \<lparr>dc_total =
              (if getTotal
               then Some (map (\<lambda>t. (fst t, Some (length (table_rows db (fst t))))) count_tables)
               else None),
            dc_counts =
              map (\<lambda>name.
                     map (\<lambda>t. (fst t, Some (if name = [] then length (table_rows db (fst t))
                                             else count_rows db (fst t) (snd t) name)))
                         count_tables)
                  names\<rparr>"
proof -
  let ?T = "\<lambda>t :: string \<times> string. length (table_rows db (fst t))"
  let ?G = "\<lambda>(name :: jsstring) (t :: string \<times> string).
              if name = [] then length (table_rows db (fst t))
              else count_rows db (fst t) (snd t) name"
  let ?F = "\<lambda>operation.
                   case op_query operation of
                     None \<Rightarrow> length (table_rows db (op_table operation))
                   | Some q \<Rightarrow> if q = [] then length (table_rows db (op_table operation))
                               else count_rows db (op_table operation) (op_column operation) q"
  let ?tot = "map (\<lambda>t. \<lparr>op_table = fst t, op_column = snd t, op_query = None\<rparr>) count_tables"
  let ?per = "concat (map (\<lambda>name.
                        map (\<lambda>t. \<lparr>op_table = fst t, op_column = snd t, op_query = Some name\<rparr>)
                            count_tables)
                      names)"
  let ?ops = "(if getTotal then ?tot else []) @ ?per"
  have tabs: "\<forall>operation\<in>set ?ops. map_of (tables (disk db)) (op_table operation) \<noteq> None"
    using ex by auto
  have raw: "bulkCount db ?ops
      = Inr ((if getTotal then map ?T count_tables else [])
              @ concat (map (\<lambda>name. map (?G name) count_tables) names))"
    unfolding bulkCount_result [OF op tabs]
    by (simp add: map_concat comp_def cong: if_cong)
  show ?thesis
  proof (cases getTotal)
    case True
    let ?raw = "map ?T count_tables @ concat (map (\<lambda>name. map (?G name) count_tables) names)"
    have len6: "length (map ?T count_tables) = 6"
      by (simp add: count_tables_def)
    have g: "fill_group ?raw count_tables ([], 0)
               = (map (\<lambda>t. (fst t, Some (?T t))) count_tables, 6)"
      using fill_group_window [of "[]" ?T "concat (map (\<lambda>name. map (?G name) count_tables) names)"]
      by simp
    have c: "fill_counts ?raw names ([], 6)
               = (map (\<lambda>name. map (\<lambda>t. (fst t, Some (?G name t))) count_tables) names,
                  6 + 6 * length names)"
      using fill_counts_window [of "map ?T count_tables" ?G names "[]" "[]"]
      by (simp only: len6 append_Nil append_Nil2)
    show ?thesis
      using True raw g c by (simp add: getDictionaryCounts_def Let_def)
  next
    case False
    let ?raw = "concat (map (\<lambda>name. map (?G name) count_tables) names)"
    have c: "fill_counts ?raw names ([], 0)
               = (map (\<lambda>name. map (\<lambda>t. (fst t, Some (?G name t))) count_tables) names,
                  6 * length names)"
      using fill_counts_window [of "[]" ?G names "[]" "[]"]
      by simp
    show ?thesis
      using False raw c by (simp add: getDictionaryCounts_def Let_def)
  qed
qed

text \<open>
  C6. The \<open>counts\<close> array has one entry for each requested name, in request order, each
  giving for the six content tables the number of rows whose dictionary equals the name, and
  \<open>total\<close> is present exactly when \<open>getTotal\<close> is true.  On the sample store no
  row has the empty dictionary name, so the entry for the name \<open>''\<close> should be zero for
  every table; \<open>getDictionaryCounts([''], false)\<close> returns the size of each table (one
  kanjiMeta row, two rows each in terms, termMeta and tagMeta).
\<close>

theorem empty_name_counts_all_rows:
  "count_rows sample_db ''terms'' ''dictionary'' [] = 0
   \<and> count_rows sample_db ''tagMeta'' ''dictionary'' [] = 0
   \<and> getDictionaryCounts sample_db [[]] False
       = Inr \<lparr>dc_total = None,
              dc_counts = [[(''kanji'', Some 0), (''kanjiMeta'', Some 1), (''terms'', Some 2),
                            (''termMeta'', Some 2), (''tagMeta'', Some 2), (''media'', Some 0)]]\<rparr>"
  by (simp add: getDictionaryCounts_def count_tables_def count_one_def execute_select_def
      at_index_def count_rows_def table_rows_def get_prop_def sample_defs Let_def)

section \<open>C7: the mode of a meta row\<close>

text \<open>
  C7, as the code has it. On an open store, when \<open>findTermMetaBulk\<close> processes a row (one
  whose expression is a queried term and whose dictionary is enabled) with a mode outside
  freq, pitch and ipa, the lookup throws the unknown-mode error. \<open>findKanjiMetaBulk\<close>
  makes no such check: every row it processes is passed through with its stored mode,
  whatever that is, and the lookup returns.
\<close>

theorem meta_mode_handling:
  assumes "handle db \<noteq> None"
    and "map_of (tables (disk db)) ''termMeta'' = Some termMeta"
    and "map_of (tables (disk db)) ''kanjiMeta'' = Some kanjiMeta"
  shows "((rid, doc) \<in> set (rows termMeta) \<and> get_prop doc ''expression'' = Some (JStr tm)
            \<and> tm \<in> set termList \<and> has_dictionary dictionaries (get_prop doc ''dictionary'')
            \<and> get_prop doc ''mode'' \<notin> known_modes
          \<longrightarrow> (\<exists>mode. findTermMetaBulk db termList dictionaries = Inl (UnknownMode mode)
                    \<and> mode \<notin> known_modes))
       \<and> ((rid', doc') \<in> set (rows kanjiMeta) \<and> get_prop doc' ''character'' = Some (JStr k)
            \<and> k \<in> set kanjiList \<and> has_dictionary dictionaries (get_prop doc' ''dictionary'')
          \<longrightarrow> (\<exists>res. findKanjiMetaBulk db kanjiList dictionaries = Inr res
                    \<and> (\<exists>entry. entry \<in> set res \<and> km_mode entry = get_prop doc' ''mode''
                          \<and> km_character entry = Some (JStr k))))"
proof (intro conjI impI)
  assume a: "(rid, doc) \<in> set (rows termMeta) \<and> get_prop doc ''expression'' = Some (JStr tm)
            \<and> tm \<in> set termList \<and> has_dictionary dictionaries (get_prop doc ''dictionary'')
            \<and> get_prop doc ''mode'' \<notin> known_modes"
  let ?p = "\<lambda>row (it :: jsstring). has_dictionary dictionaries (get_prop row ''dictionary'')"
  let ?hits = "concat (map (sub_rows (rows termMeta) createOnlyQuery1) (subqueries [''expression''] termList))"
  have sel: "execute_select db ''termMeta'' (\<lambda>r. True) = Inr (rows termMeta)"
    using assms by (simp add: execute_select_def)
  from a have ne: "termList \<noteq> []" by auto
  have "sql_eq (get_prop doc ([''expression''] ! 0)) (createOnlyQuery1 tm)"
    using a by (simp add: createOnlyQuery1_def)
  from hits_of_item [of rid doc "rows termMeta" tm termList 0 "[''expression'']" createOnlyQuery1, OF _ _ _ this]
  obtain i where hit: "(\<lparr>item = tm, itemIndex = i, indexIndex = 0\<rparr>, with_id doc rid) \<in> set ?hits"
    using a by auto
  let ?h = "(\<lparr>item = tm, itemIndex = i, indexIndex = 0\<rparr>, with_id doc rid)"
  have p: "?p (snd ?h) (item (fst ?h))"
    using a by (simp add: get_prop_with_id)
  have cr: "createTermMeta (snd ?h) (fst ?h) = Inl (UnknownMode (get_prop doc ''mode''))"
    using a by (auto simp: createTermMeta_def known_modes_def get_prop_with_id Let_def)
  from scan_rows_stateless_error [of ?h ?hits ?p createTermMeta, OF hit p cr, of "[]" "()"]
  obtain e' h' where e': "scan_rows (stateless ?p) createTermMeta ?hits ([], ()) = Inl e'"
    "createTermMeta (snd h') (fst h') = Inl e'" by blast
  from e'(2) obtain mode where "e' = UnknownMode mode" "mode \<notin> known_modes"
    by (auto simp: createTermMeta_def known_modes_def Let_def split: if_splits)
  then show "\<exists>mode. findTermMetaBulk db termList dictionaries = Inl (UnknownMode mode) \<and> mode \<notin> known_modes"
    using e'(1) sel ne by (auto simp: findTermMetaBulk_def findMultiBulk_def findMultiBulk_in_def)
next
  assume a: "(rid', doc') \<in> set (rows kanjiMeta) \<and> get_prop doc' ''character'' = Some (JStr k)
            \<and> k \<in> set kanjiList \<and> has_dictionary dictionaries (get_prop doc' ''dictionary'')"
  let ?p = "\<lambda>row (it :: jsstring). has_dictionary dictionaries (get_prop row ''dictionary'')"
  let ?f = "\<lambda>row (data :: jsstring FindMultiBulkData).
              \<lparr>km_index = itemIndex data, km_character = get_prop row ''character'',
               km_mode = get_prop row ''mode'', km_data = get_prop row ''data'',
               km_dictionary = get_prop row ''dictionary''\<rparr>"
  let ?hits = "concat (map (sub_rows (rows kanjiMeta) createOnlyQuery1) (subqueries [''character''] kanjiList))"
  have sel: "execute_select db ''kanjiMeta'' (\<lambda>r. True) = Inr (rows kanjiMeta)"
    using assms by (simp add: execute_select_def)
  from a have ne: "kanjiList \<noteq> []" by auto
  have "sql_eq (get_prop doc' ([''character''] ! 0)) (createOnlyQuery1 k)"
    using a by (simp add: createOnlyQuery1_def)
  from hits_of_item [of rid' doc' "rows kanjiMeta" k kanjiList 0 "[''character'']" createOnlyQuery1, OF _ _ _ this]
  obtain i where hit: "(\<lparr>item = k, itemIndex = i, indexIndex = 0\<rparr>, with_id doc' rid') \<in> set ?hits"
    using a by auto
  let ?h = "(\<lparr>item = k, itemIndex = i, indexIndex = 0\<rparr>, with_id doc' rid')"
  have ck: "createKanjiMeta = (\<lambda>row data. Inr (?f row data))"
    by (intro ext) (simp add: createKanjiMeta_def)
  have res: "findKanjiMetaBulk db kanjiList dictionaries
      = Inr (map (\<lambda>h. ?f (snd h) (fst h)) (filter (\<lambda>h. ?p (snd h) (item (fst h))) ?hits))"
    using sel ne
    by (simp add: findKanjiMetaBulk_def findMultiBulk_def findMultiBulk_in_def ck
        scan_rows_stateless_total)
  have "?h \<in> set (filter (\<lambda>h. ?p (snd h) (item (fst h))) ?hits)"
    using hit a by (simp add: get_prop_with_id)
  then have "(\<lambda>h. ?f (snd h) (fst h)) ?h \<in> (\<lambda>h. ?f (snd h) (fst h)) ` set (filter (\<lambda>h. ?p (snd h) (item (fst h))) ?hits)"
    by (rule imageI)
  then have "?f (snd ?h) (fst ?h) \<in> set (map (\<lambda>h. ?f (snd h) (fst h)) (filter (\<lambda>h. ?p (snd h) (item (fst h))) ?hits))"
    by simp
  moreover have "km_mode (?f (snd ?h) (fst ?h)) = get_prop doc' ''mode''"
    "km_character (?f (snd ?h) (fst ?h)) = Some (JStr k)"
    using a by (simp_all add: get_prop_with_id)
  ultimately show "\<exists>res. findKanjiMetaBulk db kanjiList dictionaries = Inr res
                    \<and> (\<exists>entry. entry \<in> set res \<and> km_mode entry = get_prop doc' ''mode''
                          \<and> km_character entry = Some (JStr k))"
    using res by blast
qed

text \<open>
  The theorem at the sample store, whose second term meta row and whose kanji meta row
  have the mode \<open>tone\<close>.
\<close>

theorem meta_mode_handling_witness:
  "(\<exists>mode. findTermMetaBulk sample_db [neko, kononeko] {dictA} = Inl (UnknownMode mode)
        \<and> mode \<notin> known_modes)
   \<and> (\<exists>res. findKanjiMetaBulk sample_db [[29483]] {dictA} = Inr res
        \<and> (\<exists>entry. entry \<in> set res
              \<and> km_mode entry = get_prop (snd (hd sample_kanjiMeta)) ''mode''
              \<and> km_character entry = Some (JStr [29483])))"
proof -
  have h1: "handle sample_db \<noteq> None"
    by (simp add: sample_db_def)
  have h2: "map_of (tables (disk sample_db)) ''termMeta''
              = Some \<lparr>autoIncrement = True, rows = sample_termMeta\<rparr>"
    by (simp add: sample_db_def sample_tables_def)
  have h3: "map_of (tables (disk sample_db)) ''kanjiMeta''
              = Some \<lparr>autoIncrement = True, rows = sample_kanjiMeta\<rparr>"
    by (simp add: sample_db_def sample_tables_def)
  note inst = meta_mode_handling [OF h1 h2 h3,
      where rid = 2 and doc = "snd (sample_termMeta ! 1)" and tm = kononeko
        and termList = "[neko, kononeko]" and dictionaries = "{dictA}"
        and rid' = 1 and doc' = "snd (hd sample_kanjiMeta)" and k = "[29483]"
        and kanjiList = "[[29483]]"]
  have p1: "(2, snd (sample_termMeta ! 1)) \<in> set (rows \<lparr>autoIncrement = True, rows = sample_termMeta\<rparr>)
            \<and> get_prop (snd (sample_termMeta ! 1)) ''expression'' = Some (JStr kononeko)
            \<and> kononeko \<in> set [neko, kononeko]
            \<and> has_dictionary {dictA} (get_prop (snd (sample_termMeta ! 1)) ''dictionary'')
            \<and> get_prop (snd (sample_termMeta ! 1)) ''mode'' \<notin> known_modes"
    by (simp add: sample_termMeta_def get_prop_def has_dictionary_def known_modes_def ascii_def)
  have p2: "(1, snd (hd sample_kanjiMeta)) \<in> set (rows \<lparr>autoIncrement = True, rows = sample_kanjiMeta\<rparr>)
            \<and> get_prop (snd (hd sample_kanjiMeta)) ''character'' = Some (JStr [29483])
            \<and> [29483] \<in> set [[29483]]
            \<and> has_dictionary {dictA} (get_prop (snd (hd sample_kanjiMeta)) ''dictionary'')"
    by (simp add: sample_kanjiMeta_def get_prop_def has_dictionary_def)
  from inst [THEN conjunct1, THEN mp, OF p1] inst [THEN conjunct2, THEN mp, OF p2]
  show ?thesis by (rule conjI)
qed

text \<open>
  C7 as stated fails for \<open>findKanjiMetaBulk\<close>: the kanji meta row of the sample store has
  the mode \<open>tone\<close>, outside the closed set, and the lookup returns it.
\<close>

theorem kanji_meta_mode_counterexample:
  "Some (JStr (ascii ''tone'')) \<notin> known_modes
   \<and> findKanjiMetaBulk sample_db [[29483]] {dictA}
       = Inr [\<lparr>km_index = 0, km_character = Some (JStr [29483]),
               km_mode = Some (JStr (ascii ''tone'')), km_data = Some (JNum 1),
               km_dictionary = Some (JStr dictA)\<rparr>]"
  by (simp add: known_modes_def ascii_def findKanjiMetaBulk_def createKanjiMeta_def
      createOnlyQuery1_def has_dictionary_def lookup_defs sample_defs)

section \<open>Single-row lookups\<close>

lemma sql_eq_Some: "sql_eq v q \<Longrightarrow> v = Some q"
  by (cases "(v, q)" rule: sql_eq.cases) auto

lemma sql_eq_refl_iff: "sql_eq (Some q) q' \<Longrightarrow> sql_eq (Some q) q"
  by (cases "(Some q, q')" rule: sql_eq.cases) auto

lemma in_list_and_key:
  assumes "q \<in> set qs"
  shows "(list_ex (sql_eq v) qs \<and> v = Some q) = sql_eq v q"
proof
  assume "list_ex (sql_eq v) qs \<and> v = Some q"
  then obtain q' where "sql_eq (Some q) q'" "v = Some q" by (auto simp: list_ex_iff)
  then show "sql_eq v q" using sql_eq_refl_iff by simp
next
  assume "sql_eq v q"
  then show "list_ex (sql_eq v) qs \<and> v = Some q"
    using assms sql_eq_Some by (auto simp: list_ex_iff)
qed

lemma map_of_fold_update:
  "map_of (fold (\<lambda>kv m. AList.update (fst kv) (snd kv) m) es m0) = map_of m0 ++ map_of (rev es)"
proof (induction es arbitrary: m0)
  case Nil
  show ?case by simp
next
  case (Cons e es)
  obtain k v where e: "e = (k, v)" by (cases e)
  have "map_of (fold (\<lambda>kv m. AList.update (fst kv) (snd kv) m) es (AList.update k v m0))
          = map_of (AList.update k v m0) ++ map_of (rev es)"
    by (rule Cons.IH)
  also have "\<dots> = map_of m0 ++ map_of (rev es @ [(k, v)])"
    by (auto simp: update_conv' map_add_def fun_eq_iff split: option.splits)
  finally show ?case using e by simp
qed

lemma map_of_new_Map: "map_of (new_Map es) = map_of (rev es)"
  by (simp add: new_Map_def map_of_fold_update)

lemma map_of_keyed_find:
  "map_of (map (\<lambda>r. (key r, val r)) rs) k = map_option val (find (\<lambda>r. key r = k) rs)"
  by (induction rs) auto

lemma find_filter: "find P (filter Q xs) = find (\<lambda>x. Q x \<and> P x) xs"
  by (induction xs) auto

lemma findFirstBulk_slots:
  assumes "handle db \<noteq> None" and "map_of (tables (disk db)) tableName = Some t"
  shows "findFirstBulk db tableName indexColumns items createQuery predicate
     = Inr (map (\<lambda>it.
              case find (\<lambda>r. sql_eq (get_prop (snd r) indexColumns) (createQuery it)) (rev (rows t)) of
                None \<Rightarrow> None
              | Some r \<Rightarrow> if predicate (with_id (snd r) (fst r)) it
                          then Some (with_id (snd r) (fst r)) else None)
            items)"
proof (cases "items = []")
  case True
  then show ?thesis by (simp add: findFirstBulk_def)
next
  case False
  let ?queries = "map createQuery items"
  let ?rs = "filter (\<lambda>r. list_ex (sql_eq (get_prop (snd r) indexColumns)) ?queries) (rows t)"
  let ?rowMap = "new_Map (map (\<lambda>r. (get_prop (snd r) indexColumns, with_id (snd r) (fst r))) ?rs)"
  have sel: "execute_select db tableName (\<lambda>r. list_ex (sql_eq (get_prop (snd r) indexColumns)) ?queries)
               = Inr ?rs"
    using assms by (simp add: execute_select_def)
  have look: "map_of ?rowMap (Some (createQuery it))
        = map_option (\<lambda>r. with_id (snd r) (fst r))
            (find (\<lambda>r. sql_eq (get_prop (snd r) indexColumns) (createQuery it)) (rev (rows t)))"
    if "it \<in> set items" for it
  proof -
    have "map_of ?rowMap (Some (createQuery it))
        = map_option (\<lambda>r. with_id (snd r) (fst r))
            (find (\<lambda>r. get_prop (snd r) indexColumns = Some (createQuery it)) (rev ?rs))"
      by (simp add: map_of_new_Map rev_map map_of_keyed_find)
    also have "find (\<lambda>r. get_prop (snd r) indexColumns = Some (createQuery it)) (rev ?rs)
        = find (\<lambda>r. list_ex (sql_eq (get_prop (snd r) indexColumns)) ?queries
                   \<and> get_prop (snd r) indexColumns = Some (createQuery it)) (rev (rows t))"
      by (simp add: rev_filter find_filter)
    also have "\<dots> = find (\<lambda>r. sql_eq (get_prop (snd r) indexColumns) (createQuery it)) (rev (rows t))"
    proof (rule find_cong [OF refl])
      fix r
      show "(list_ex (sql_eq (get_prop (snd r) indexColumns)) ?queries
               \<and> get_prop (snd r) indexColumns = Some (createQuery it))
            = sql_eq (get_prop (snd r) indexColumns) (createQuery it)"
        using that by (intro in_list_and_key) simp
    qed
    finally show ?thesis .
  qed
  have "findFirstBulk db tableName indexColumns items createQuery predicate
     = Inr (map (\<lambda>(it, query).
                            (case map_of ?rowMap (Some query) of
                               None \<Rightarrow> None
                             | Some row \<Rightarrow> if predicate row it then Some row else None))
                          (zip items ?queries))"
    using False sel by (simp add: findFirstBulk_def Let_def)
  also have "zip items ?queries = map (\<lambda>it. (it, createQuery it)) items"
    by (induction items) auto
  finally show ?thesis
    by (auto simp: look split: option.splits)
qed

lemma take_1_filter:
  "take (Suc 0) (filter P xs) = (case find P xs of None \<Rightarrow> [] | Some x \<Rightarrow> [x])"
  by (induction xs) auto

lemma find_db_first_row:
  assumes "handle db \<noteq> None" and "map_of (tables (disk db)) tableName = Some t"
    and "ix \<noteq> []"
  shows "find_db db tableName (Some ix) query predicate predicateArg d
     = Inr (case find (\<lambda>r. sql_eq (get_prop (snd r) ix) (key_of_query query)) (rows t) of
              None \<Rightarrow> DefaultValue d
            | Some r \<Rightarrow>
                (case predicate of
                   None \<Rightarrow> Found (snd r)
                 | Some p \<Rightarrow> if p (snd r) predicateArg then Found (snd r) else DefaultValue d))"
  using assms
  by (simp add: find_db_def execute_select_def take_1_filter Let_def split: option.splits)

section \<open>C2: the slots of findFirstBulk\<close>

text \<open>
  C2 at the sample store, whose tagMeta table holds two rows named \<open>n\<close>, the first of
  dictionary A and the second of dictionary B. \<open>findTagMetaBulk\<close> asked for the tag
  \<open>n\<close> of dictionary A answers undefined, although the first row has that name and that
  dictionary; and \<open>findFirstBulk\<close> with a predicate that accepts every row answers the
  second row, not the first. The map built from the rows keeps, for each key, the last
  row (lemma \<open>findFirstBulk_slots\<close>).
\<close>

theorem findTagMetaBulk_keeps_last_row:
  "sample_tagMeta ! 0 = (1, [(''name'', JStr [110]), (''dictionary'', JStr dictA)])
   \<and> findTagMetaBulk sample_db [\<lparr>req_query = JStr [110], req_dictionary = dictA\<rparr>] = Inr [None]
   \<and> findFirstBulk sample_db ''tagMeta'' ''name'' [()] (\<lambda>it. JStr [110]) (\<lambda>row it. True)
       = Inr [Some [(''name'', JStr [110]), (''dictionary'', JStr dictB), (''id'', JNum 2)]]"
  by (simp add: findTagMetaBulk_def findFirstBulk_def new_Map_def execute_select_def
      get_prop_def with_id_def sample_defs)

section \<open>C9: a missing key gives the default\<close>

text \<open>
  C9. On an open store whose table exists: \<open>find\<close> returns the default value, and does
  not throw, when no row's index field equals the key, and when the first row whose index
  field equals the key fails the predicate; \<open>findFirstBulk\<close> returns one slot for each
  item, and the slot of an item whose key no row has is undefined.
\<close>

theorem missing_key_gives_default:
  assumes "handle db \<noteq> None" and "map_of (tables (disk db)) tableName = Some t"
  shows "((\<forall>r\<in>set (rows t). \<not> sql_eq (get_prop (snd r) ix) (key_of_query query))
            \<longrightarrow> find_db db tableName (Some ix) query predicate predicateArg d = Inr (DefaultValue d))
       \<and> (find (\<lambda>r. sql_eq (get_prop (snd r) ix) (key_of_query query)) (rows t) = Some r
            \<and> predicate = Some p \<and> \<not> p (snd r) predicateArg
            \<longrightarrow> find_db db tableName (Some ix) query predicate predicateArg d = Inr (DefaultValue d))
       \<and> (\<exists>slots. findFirstBulk db tableName indexColumn items createQuery accept = Inr slots
            \<and> length slots = length items
            \<and> (\<forall>i < length items.
                  (\<forall>r\<in>set (rows t). \<not> sql_eq (get_prop (snd r) indexColumn) (createQuery (items ! i)))
                  \<longrightarrow> slots ! i = None))"
proof (intro conjI impI)
  assume none: "\<forall>r\<in>set (rows t). \<not> sql_eq (get_prop (snd r) ix) (key_of_query query)"
  show "find_db db tableName (Some ix) query predicate predicateArg d = Inr (DefaultValue d)"
  proof (cases "ix = []")
    case True
    then show ?thesis using assms by (simp add: find_db_def)
  next
    case False
    have nn: "find (\<lambda>r. sql_eq (get_prop (snd r) ix) (key_of_query query)) (rows t) = None"
      using none by (auto simp: find_None_iff)
    show ?thesis
      by (subst find_db_first_row [OF assms False]) (simp add: nn)
  qed
next
  assume a: "find (\<lambda>r. sql_eq (get_prop (snd r) ix) (key_of_query query)) (rows t) = Some r
            \<and> predicate = Some p \<and> \<not> p (snd r) predicateArg"
  show "find_db db tableName (Some ix) query predicate predicateArg d = Inr (DefaultValue d)"
  proof (cases "ix = []")
    case True
    then show ?thesis using assms by (simp add: find_db_def)
  next
    case False
    show ?thesis
      by (subst find_db_first_row [OF assms False]) (simp add: a)
  qed
next
  let ?slot = "\<lambda>it. case find (\<lambda>r. sql_eq (get_prop (snd r) indexColumn) (createQuery it)) (rev (rows t)) of
                None \<Rightarrow> None
              | Some r \<Rightarrow> if accept (with_id (snd r) (fst r)) it
                          then Some (with_id (snd r) (fst r)) else None"
  have eq: "findFirstBulk db tableName indexColumn items createQuery accept = Inr (map ?slot items)"
    by (rule findFirstBulk_slots [OF assms])
  have "map ?slot items ! i = None"
    if "i < length items"
      and "\<forall>r\<in>set (rows t). \<not> sql_eq (get_prop (snd r) indexColumn) (createQuery (items ! i))" for i
  proof -
    have "find (\<lambda>r. sql_eq (get_prop (snd r) indexColumn) (createQuery (items ! i))) (rev (rows t)) = None"
      using that(2) by (auto simp: find_None_iff)
    then show ?thesis using that(1) by simp
  qed
  then show "\<exists>slots. findFirstBulk db tableName indexColumn items createQuery accept = Inr slots
            \<and> length slots = length items
            \<and> (\<forall>i < length items.
                  (\<forall>r\<in>set (rows t). \<not> sql_eq (get_prop (snd r) indexColumn) (createQuery (items ! i)))
                  \<longrightarrow> slots ! i = None)"
    using eq by simp
qed

text \<open>
  The theorem at the sample store: no tag is named \<open>z\<close>; the first tag named \<open>n\<close> is
  of dictionary A, so it fails a predicate that asks for dictionary B.
\<close>

theorem missing_key_gives_default_witness:
  "find_db sample_db ''tagMeta'' (Some ''name'') (JStr [122])
       (None :: (document \<Rightarrow> unit \<Rightarrow> bool) option) () JNull = Inr (DefaultValue JNull)
   \<and> find_db sample_db ''tagMeta'' (Some ''name'') (JObj [(''lower'', JStr [110]), (''upper'', JStr [110])])
       (Some (\<lambda>row d. get_prop row ''dictionary'' = Some (JStr d))) dictB JNull
       = Inr (DefaultValue JNull)
   \<and> (\<exists>slots. findFirstBulk sample_db ''tagMeta'' ''name''
                  [\<lparr>req_query = JStr [122], req_dictionary = dictA\<rparr>] req_query
                  (\<lambda>row it. get_prop row ''dictionary'' = Some (JStr (req_dictionary it))) = Inr slots
         \<and> length slots = 1 \<and> slots ! 0 = None)"
proof -
  let ?t = "\<lparr>autoIncrement = True, rows = sample_tagMeta\<rparr>"
  let ?p = "\<lambda>row d. get_prop row ''dictionary'' = Some (JStr d)"
  let ?items = "[\<lparr>req_query = JStr [122], req_dictionary = dictA\<rparr>]"
  let ?accept = "\<lambda>row it. get_prop row ''dictionary'' = Some (JStr (req_dictionary it))"
  have h1: "handle sample_db \<noteq> None"
    by (simp add: sample_db_def)
  have h2: "map_of (tables (disk sample_db)) ''tagMeta'' = Some ?t"
    by (simp add: sample_db_def sample_tables_def)
  have p1: "\<forall>r\<in>set (rows ?t). \<not> sql_eq (get_prop (snd r) ''name'') (key_of_query (JStr [122]))"
    by (simp add: sample_tagMeta_def get_prop_def)
  have a: "find_db sample_db ''tagMeta'' (Some ''name'') (JStr [122])
       (None :: (document \<Rightarrow> unit \<Rightarrow> bool) option) () JNull = Inr (DefaultValue JNull)"
    by (rule missing_key_gives_default [OF h1 h2, THEN conjunct1, THEN mp, OF p1])
  have p2: "find (\<lambda>r. sql_eq (get_prop (snd r) ''name'')
                     (key_of_query (JObj [(''lower'', JStr [110]), (''upper'', JStr [110])]))) (rows ?t)
              = Some (hd sample_tagMeta)
            \<and> Some ?p = Some ?p \<and> \<not> ?p (snd (hd sample_tagMeta)) dictB"
    by (simp add: sample_tagMeta_def get_prop_def dictA_def dictB_def)
  have b: "find_db sample_db ''tagMeta'' (Some ''name'') (JObj [(''lower'', JStr [110]), (''upper'', JStr [110])])
       (Some ?p) dictB JNull = Inr (DefaultValue JNull)"
    by (rule missing_key_gives_default [OF h1 h2, THEN conjunct2, THEN conjunct1, THEN mp, OF p2])
  from missing_key_gives_default [where indexColumn = "''name''" and items = ?items
      and createQuery = req_query and accept = ?accept, OF h1 h2, THEN conjunct2, THEN conjunct2]
  obtain slots where s: "findFirstBulk sample_db ''tagMeta'' ''name'' ?items req_query ?accept = Inr slots"
    "length slots = length ?items"
    "\<forall>i < length ?items.
        (\<forall>r\<in>set (rows ?t). \<not> sql_eq (get_prop (snd r) ''name'') (req_query (?items ! i)))
        \<longrightarrow> slots ! i = None"
    by blast
  have "\<forall>r\<in>set (rows ?t). \<not> sql_eq (get_prop (snd r) ''name'') (req_query (?items ! 0))"
    by (simp add: sample_tagMeta_def get_prop_def)
  with s(3) have "slots ! 0 = None" by simp
  with s(1,2) have c: "\<exists>slots. findFirstBulk sample_db ''tagMeta'' ''name'' ?items req_query ?accept = Inr slots
         \<and> length slots = 1 \<and> slots ! 0 = None"
    by simp
  from a b c show ?thesis by blast
qed

section \<open>C8: migration\<close>

lemma versions_set_append: "versions_set (J @ K) = versions_set J @ versions_set K"
  by (induction J rule: versions_set.induct) simp_all

lemma createIndices_all:
  "user_version (createIndices f n ixs) = user_version f
   \<and> tables (createIndices f n ixs) = tables f
   \<and> (\<exists>J. journal (createIndices f n ixs) = journal f @ J \<and> versions_set J = [])
   \<and> fst ` set (indices (createIndices f n ixs)) = fst ` set (indices f) \<union> index_name n ` set ixs
   \<and> (index_name n ` set ixs \<subseteq> fst ` set (indices f) \<longrightarrow> indices (createIndices f n ixs) = indices f)"
proof (induction ixs arbitrary: f)
  case Nil
  show ?case by simp
next
  case (Cons i ixs)
  let ?k = "index_name n i"
  let ?f' = "f\<lparr>journal := journal f @ [CreateIndex ?k n i]\<rparr>"
  let ?g = "if map_of (indices f) ?k \<noteq> None then ?f'
            else ?f'\<lparr>indices := indices f @ [(?k, n, i)]\<rparr>"
  have step: "createIndices f n (i # ixs) = createIndices ?g n ixs"
    by (simp add: Let_def)
  have ex: "map_of (indices f) ?k \<noteq> None \<longleftrightarrow> ?k \<in> fst ` set (indices f)"
    by (simp add: map_of_eq_None_iff)
  note IH = Cons.IH [of ?g]
  have 1: "user_version (createIndices ?g n ixs) = user_version f"
    using IH by simp
  have 2: "tables (createIndices ?g n ixs) = tables f"
    using IH by simp
  from IH obtain J where J: "journal (createIndices ?g n ixs) = journal ?g @ J"
      "versions_set J = []" by blast
  have 3: "\<exists>J. journal (createIndices ?g n ixs) = journal f @ J \<and> versions_set J = []"
  proof (intro exI conjI)
    show "journal (createIndices ?g n ixs) = journal f @ (CreateIndex ?k n i # J)"
      using J(1) by simp
    show "versions_set (CreateIndex ?k n i # J) = []"
      using J(2) by simp
  qed
  have "fst ` set (indices (createIndices ?g n ixs)) = fst ` set (indices ?g) \<union> index_name n ` set ixs"
    using IH by blast
  then have 4: "fst ` set (indices (createIndices ?g n ixs))
                 = fst ` set (indices f) \<union> index_name n ` set (i # ixs)"
    using ex by auto
  have 5: "indices (createIndices ?g n ixs) = indices f"
    if "index_name n ` set (i # ixs) \<subseteq> fst ` set (indices f)"
  proof -
    from that have "?k \<in> fst ` set (indices f)" "index_name n ` set ixs \<subseteq> fst ` set (indices f)"
      by auto
    then have "indices ?g = indices f" "index_name n ` set ixs \<subseteq> fst ` set (indices ?g)"
      using ex by simp_all
    then show ?thesis using IH by simp
  qed
  show ?case
    unfolding step using 1 2 3 4 5 by blast
qed

lemma createOrUpdateTable_all:
  "user_version (createOrUpdateTable f n sd) = user_version f
   \<and> (\<exists>J. journal (createOrUpdateTable f n sd) = journal f @ J \<and> versions_set J = [])
   \<and> fst ` set (tables (createOrUpdateTable f n sd)) = insert n (fst ` set (tables f))
   \<and> (n \<in> fst ` set (tables f) \<longrightarrow> tables (createOrUpdateTable f n sd) = tables f)
   \<and> fst ` set (indices (createOrUpdateTable f n sd))
        = fst ` set (indices f) \<union> index_name n ` set (store_indices sd)
   \<and> (index_name n ` set (store_indices sd) \<subseteq> fst ` set (indices f)
        \<longrightarrow> indices (createOrUpdateTable f n sd) = indices f)"
proof -
  let ?g = "if \<not> tableExists f n then createTable f n sd else f"
  have ex: "tableExists f n \<longleftrightarrow> n \<in> fst ` set (tables f)"
    by (simp add: tableExists_def map_of_eq_None_iff)
  have g: "user_version ?g = user_version f" "indices ?g = indices f"
    "fst ` set (tables ?g) = insert n (fst ` set (tables f))"
    "n \<in> fst ` set (tables f) \<longrightarrow> tables ?g = tables f"
    "\<exists>J. journal ?g = journal f @ J \<and> versions_set J = []"
    using ex by (auto simp: createTable_def Let_def)
  note ci = createIndices_all [of ?g n "store_indices sd"]
  from ci g(5) have j: "\<exists>J. journal (createIndices ?g n (store_indices sd)) = journal f @ J \<and> versions_set J = []"
    by (metis append.assoc versions_set_append append_Nil)
  show ?thesis
    unfolding createOrUpdateTable_def using ci g(1,2,3,4) j by simp
qed

lemmas createOrUpdateTable_version = createOrUpdateTable_all [THEN conjunct1]
lemmas createOrUpdateTable_journal = createOrUpdateTable_all [THEN conjunct2, THEN conjunct1]
lemmas createOrUpdateTable_names = createOrUpdateTable_all [THEN conjunct2, THEN conjunct2, THEN conjunct1]
lemmas createOrUpdateTable_same_tables =
  createOrUpdateTable_all [THEN conjunct2, THEN conjunct2, THEN conjunct2, THEN conjunct1, THEN mp]
lemmas createOrUpdateTable_index_names =
  createOrUpdateTable_all [THEN conjunct2, THEN conjunct2, THEN conjunct2, THEN conjunct2, THEN conjunct1]
lemmas createOrUpdateTable_same_indices =
  createOrUpdateTable_all [THEN conjunct2, THEN conjunct2, THEN conjunct2, THEN conjunct2, THEN conjunct2, THEN mp]

lemma applySchemaChanges_version:
  "user_version (applySchemaChanges f S) = user_version f"
  by (induction f S rule: applySchemaChanges.induct) (simp_all add: createOrUpdateTable_version)

lemma applySchemaChanges_journal:
  "\<exists>J. journal (applySchemaChanges f S) = journal f @ J \<and> versions_set J = []"
proof (induction f S rule: applySchemaChanges.induct)
  case (1 f)
  show ?case by simp
next
  case (2 f n sd S)
  from createOrUpdateTable_journal [of f n sd] obtain J1 where
    J1: "journal (createOrUpdateTable f n sd) = journal f @ J1" "versions_set J1 = []"
    by (elim exE conjE)
  from "2.IH" obtain J2 where
    J2: "journal (applySchemaChanges (createOrUpdateTable f n sd) S)
           = journal (createOrUpdateTable f n sd) @ J2" "versions_set J2 = []"
    by (elim exE conjE)
  show ?case
  proof (intro exI conjI)
    show "journal (applySchemaChanges f ((n, sd) # S)) = journal f @ (J1 @ J2)"
      using J1(1) J2(1) by simp
    show "versions_set (J1 @ J2) = []"
      using J1(2) J2(2) by (simp add: versions_set_append)
  qed
qed

lemma applySchemaChanges_names:
  "fst ` set (tables (applySchemaChanges f S)) = fst ` set (tables f) \<union> fst ` set S"
  by (induction f S rule: applySchemaChanges.induct) (simp_all add: createOrUpdateTable_names)

lemma applySchemaChanges_index_names:
  "fst ` set (indices (applySchemaChanges f S))
     = fst ` set (indices f) \<union> (\<Union>e\<in>set S. index_name (fst e) ` set (store_indices (snd e)))"
  by (induction f S rule: applySchemaChanges.induct)
     (simp_all add: createOrUpdateTable_index_names Un_assoc)

lemma applySchemaChanges_same:
  "fst ` set S \<subseteq> fst ` set (tables f) \<Longrightarrow>
   (\<Union>e\<in>set S. index_name (fst e) ` set (store_indices (snd e))) \<subseteq> fst ` set (indices f) \<Longrightarrow>
   tables (applySchemaChanges f S) = tables f \<and> indices (applySchemaChanges f S) = indices f"
proof (induction f S rule: applySchemaChanges.induct)
  case (1 f)
  show ?case by simp
next
  case (2 f n sd S)
  have "n \<in> fst ` set (tables f)" using "2.prems"(1) by simp
  then have t: "tables (createOrUpdateTable f n sd) = tables f"
    by (rule createOrUpdateTable_same_tables)
  have "index_name n ` set (store_indices sd) \<subseteq> fst ` set (indices f)"
    using "2.prems"(2) by simp
  then have i: "indices (createOrUpdateTable f n sd) = indices f"
    by (rule createOrUpdateTable_same_indices)
  have a: "fst ` set S \<subseteq> fst ` set (tables (createOrUpdateTable f n sd))"
    using "2.prems"(1) t by simp
  have b: "(\<Union>e\<in>set S. index_name (fst e) ` set (store_indices (snd e)))
             \<subseteq> fst ` set (indices (createOrUpdateTable f n sd))"
    using "2.prems"(2) i by simp
  from "2.IH" [OF a b] show ?case using t i by simp
qed

lemma applySchemaChanges_idempotent:
  "tables (applySchemaChanges (applySchemaChanges f S) S) = tables (applySchemaChanges f S)
   \<and> indices (applySchemaChanges (applySchemaChanges f S) S) = indices (applySchemaChanges f S)"
proof (rule applySchemaChanges_same)
  show "fst ` set S \<subseteq> fst ` set (tables (applySchemaChanges f S))"
    by (simp add: applySchemaChanges_names)
  show "(\<Union>e\<in>set S. index_name (fst e) ` set (store_indices (snd e)))
          \<subseteq> fst ` set (indices (applySchemaChanges f S))"
    by (simp add: applySchemaChanges_index_names)
qed

lemma migrate_none:
  "\<forall>s\<in>set ss. \<not> (c < version s \<and> version s \<le> v) \<Longrightarrow> migrate c v ss f = f"
  by (induction ss arbitrary: f) (auto simp: Let_def)

lemma migrate_all:
  "user_version (migrate c v ss f)
     = (if filter (\<lambda>s. c < version s \<and> version s \<le> v) ss = [] then user_version f
        else version (last (filter (\<lambda>s. c < version s \<and> version s \<le> v) ss)))
   \<and> (\<exists>J. journal (migrate c v ss f) = journal f @ J
         \<and> versions_set J = map version (filter (\<lambda>s. c < version s \<and> version s \<le> v) ss))"
proof -
  define app where "app = (\<lambda>s :: StructureDefinition. c < version s \<and> version s \<le> v)"
  have "user_version (migrate c v ss f)
          = (if filter app ss = [] then user_version f else version (last (filter app ss)))
        \<and> (\<exists>J. journal (migrate c v ss f) = journal f @ J
              \<and> versions_set J = map version (filter app ss))"
  proof (induction ss arbitrary: f)
    case Nil
    show ?case by simp
  next
    case (Cons s ss)
    show ?case
    proof (cases "app s")
      case False
      then have "\<not> (version s > c \<and> version s \<le> v)"
        by (simp add: app_def)
      then have m: "migrate c v (s # ss) f = migrate c v ss f"
        by (simp only: migrate.simps if_False)
      have fl: "filter app (s # ss) = filter app ss"
        using False by simp
      show ?thesis unfolding m fl by (rule Cons.IH)
    next
      case True
      let ?a = "applySchemaChanges f (stores s)"
      let ?f1 = "?a\<lparr>user_version := version s, journal := journal ?a @ [SetUserVersion (version s)]\<rparr>"
      have "version s > c \<and> version s \<le> v"
        using True by (simp add: app_def)
      then have step: "migrate c v (s # ss) f = migrate c v ss ?f1"
        by (simp add: Let_def)
      have fl: "filter app (s # ss) = s # filter app ss"
        using True by simp
      from applySchemaChanges_journal [of f "stores s"] obtain J1 where
        J1: "journal ?a = journal f @ J1" "versions_set J1 = []" by (elim exE conjE)
      note IH = Cons.IH [of ?f1]
      from IH [THEN conjunct2] obtain J2 where J2: "journal (migrate c v ss ?f1) = journal ?f1 @ J2"
        "versions_set J2 = map version (filter app ss)" by (elim exE conjE)
      from IH have "user_version (migrate c v ss ?f1)
          = (if filter app ss = [] then user_version ?f1 else version (last (filter app ss)))"
        by (rule conjunct1)
      then have uv: "user_version (migrate c v ss ?f1)
          = (if filter app (s # ss) = [] then user_version f
             else version (last (filter app (s # ss))))"
        unfolding fl by simp
      have jr: "\<exists>J. journal (migrate c v ss ?f1) = journal f @ J
           \<and> versions_set J = map version (filter app (s # ss))"
      proof (intro exI conjI)
        show "journal (migrate c v ss ?f1) = journal f @ (J1 @ SetUserVersion (version s) # J2)"
          using J1(1) J2(1) by simp
        show "versions_set (J1 @ SetUserVersion (version s) # J2) = map version (filter app (s # ss))"
          unfolding fl using J1(2) J2(2) by (simp add: versions_set_append)
      qed
      show ?thesis unfolding step using uv jr by (rule conjI)
    qed
  qed
  then show ?thesis unfolding app_def .
qed

lemma sorted_map_last:
  "sorted (map g xs) \<Longrightarrow> x \<in> set xs \<Longrightarrow> g x \<le> g (last xs)"
proof (induction xs)
  case Nil
  then show ?case by simp
next
  case (Cons a xs)
  show ?case
  proof (cases "xs = []")
    case True
    then show ?thesis using Cons.prems by simp
  next
    case False
    then have l: "last xs \<in> set xs" by simp
    show ?thesis
    proof (cases "x = a")
      case True
      then show ?thesis using Cons.prems(1) l False by auto
    next
      case False
      then have "x \<in> set xs" using Cons.prems(2) by simp
      then show ?thesis using Cons.IH Cons.prems(1) \<open>xs \<noteq> []\<close> by simp
    qed
  qed
qed

lemma performMigrations_settles:
  assumes "c' = user_version (performMigrations c v structure f)"
    and "user_version f = c"
  shows "performMigrations c' v structure (performMigrations c v structure f)
           = performMigrations c v structure f"
proof -
  define app where "app = (\<lambda>s :: StructureDefinition. c < version s \<and> version s \<le> v)"
  define ss where "ss = sort_key version structure"
  define xs where "xs = filter app ss"
  have srt: "sorted (map version ss)"
    unfolding ss_def by (rule sorted_sort_key)
  have sx: "sorted (map version xs)"
    unfolding xs_def using srt by (rule sorted_filter)
  have "user_version (migrate c v ss f)
          = (if filter (\<lambda>s. c < version s \<and> version s \<le> v) ss = [] then user_version f
             else version (last (filter (\<lambda>s. c < version s \<and> version s \<le> v) ss)))"
    using migrate_all [of c v ss f] by (rule conjunct1)
  then have uv: "c' = (if xs = [] then c else version (last xs))"
    using assms unfolding performMigrations_def ss_def [symmetric] xs_def app_def by simp
  have none: "\<not> (c' < version s \<and> version s \<le> v)" if s: "s \<in> set ss" for s
  proof (cases "xs = []")
    case True
    then have "\<not> app s" using s unfolding xs_def by (simp add: filter_empty_conv)
    moreover have "c' = c" using uv True by simp
    ultimately show ?thesis by (simp add: app_def)
  next
    case False
    then have c': "c' = version (last xs)" using uv by simp
    have "last xs \<in> set xs" using False by (rule last_in_set)
    then have "app (last xs)" unfolding xs_def by simp
    then have lc: "c < c'" using c' by (simp add: app_def)
    show ?thesis
    proof
      assume a: "c' < version s \<and> version s \<le> v"
      then have "app s" using lc by (simp add: app_def)
      then have "s \<in> set xs" using s unfolding xs_def by simp
      then have "version s \<le> version (last xs)"
        by (rule sorted_map_last [OF sx])
      then show False using a c' by simp
    qed
  qed
  have "migrate c' v ss (migrate c v ss f) = migrate c v ss f"
    by (rule migrate_none) (use none in blast)
  then show ?thesis
    unfolding performMigrations_def ss_def .
qed

text \<open>
  C8. Opening, closing and opening again with the same target version and structure
  leaves the file as the first opening left it: no statement is executed, so the schema
  and the persisted \<open>user_version\<close> are unchanged. For every migration, the versions
  that it persists are those of the entries with a version above the current and at most
  the target one, in ascending order. Creating a table that exists leaves the tables
  unchanged, creating indices that exist leaves the indices unchanged, and applying the
  changes of an entry a second time changes neither.
\<close>

theorem reopen_changes_nothing:
  "(open_db db h v structure = Inr db1 \<and> close_db db1 = Inr db2
      \<and> open_db db2 h' v structure = Inr db3
     \<longrightarrow> disk db3 = disk db1)
   \<and> (\<exists>J. journal (performMigrations c v structure f) = journal f @ J
         \<and> versions_set J
             = map version (filter (\<lambda>s. c < version s \<and> version s \<le> v) (sort_key version structure)))
   \<and> (tableExists f n \<longrightarrow> tables (createOrUpdateTable f n sd) = tables f)
   \<and> ((\<forall>i\<in>set (store_indices sd). map_of (indices f) (index_name n i) \<noteq> None)
         \<longrightarrow> indices (createOrUpdateTable f n sd) = indices f)
   \<and> tables (applySchemaChanges (applySchemaChanges f S) S) = tables (applySchemaChanges f S)
   \<and> indices (applySchemaChanges (applySchemaChanges f S) S) = indices (applySchemaChanges f S)"
proof (intro conjI impI)
  assume a: "open_db db h v structure = Inr db1 \<and> close_db db1 = Inr db2
      \<and> open_db db2 h' v structure = Inr db3"
  let ?c = "user_version (disk db)"
  let ?c' = "user_version (disk db1)"
  from a have d1: "disk db1 = (if ?c < v then performMigrations ?c v structure (disk db) else disk db)"
    by (auto simp: open_db_def Let_def split: if_splits)
  from a have d2: "disk db2 = disk db1"
    by (auto simp: close_db_def split: if_splits)
  from a have d3: "disk db3 = (if user_version (disk db2) < v
                               then performMigrations (user_version (disk db2)) v structure (disk db2)
                               else disk db2)"
    by (auto simp: open_db_def Let_def split: if_splits)
  show "disk db3 = disk db1"
  proof (cases "?c < v")
    case True
    then have m: "disk db1 = performMigrations ?c v structure (disk db)"
      using d1 by simp
    have "performMigrations ?c' v structure (disk db1) = disk db1"
      unfolding m by (rule performMigrations_settles) simp_all
    then show ?thesis using d3 d2 by simp
  next
    case False
    then have "disk db1 = disk db" using d1 by simp
    then show ?thesis using d3 d2 False by simp
  qed
next
  show "\<exists>J. journal (performMigrations c v structure f) = journal f @ J
         \<and> versions_set J
             = map version (filter (\<lambda>s. c < version s \<and> version s \<le> v) (sort_key version structure))"
    unfolding performMigrations_def by (rule migrate_all [THEN conjunct2])
next
  assume "tableExists f n"
  then have "n \<in> fst ` set (tables f)"
    by (simp add: tableExists_def map_of_eq_None_iff)
  then show "tables (createOrUpdateTable f n sd) = tables f"
    by (rule createOrUpdateTable_same_tables)
next
  assume "\<forall>i\<in>set (store_indices sd). map_of (indices f) (index_name n i) \<noteq> None"
  then have "index_name n ` set (store_indices sd) \<subseteq> fst ` set (indices f)"
    by (auto simp: map_of_eq_None_iff)
  then show "indices (createOrUpdateTable f n sd) = indices f"
    by (rule createOrUpdateTable_same_indices)
next
  show "tables (applySchemaChanges (applySchemaChanges f S) S) = tables (applySchemaChanges f S)"
    by (rule applySchemaChanges_idempotent [THEN conjunct1])
next
  show "indices (applySchemaChanges (applySchemaChanges f S) S) = indices (applySchemaChanges f S)"
    by (rule applySchemaChanges_idempotent [THEN conjunct2])
qed

lemma sample_first_open:
  "user_version (performMigrations 0 60 upgrade \<lparr>user_version = 0, tables = [], indices = [], journal = []\<rparr>) = 60
   \<and> map fst (tables (performMigrations 0 60 upgrade \<lparr>user_version = 0, tables = [], indices = [], journal = []\<rparr>))
       = [''terms'', ''kanji'', ''tagMeta'', ''dictionaries'', ''termMeta'', ''kanjiMeta'', ''media'']"
  by code_simp

text \<open>
  The theorem for \<open>prepare\<close> on a new store: the first opening migrates to version 60 and
  creates the seven tables, the second changes nothing.
\<close>

theorem reopen_changes_nothing_witness:
  "\<exists>db1 db2 db3. prepare new_db 1 = Inr db1 \<and> close_db db1 = Inr db2 \<and> prepare db2 2 = Inr db3
     \<and> disk db3 = disk db1 \<and> user_version (disk db1) = 60
     \<and> map fst (tables (disk db1))
         = [''terms'', ''kanji'', ''tagMeta'', ''dictionaries'', ''termMeta'', ''kanjiMeta'', ''media'']"
proof -
  let ?f1 = "performMigrations 0 60 upgrade \<lparr>user_version = 0, tables = [], indices = [], journal = []\<rparr>"
  let ?db1 = "\<lparr>handle = Some 1, isOpening = False, disk = ?f1\<rparr>"
  let ?db2 = "\<lparr>handle = None, isOpening = False, disk = ?f1\<rparr>"
  have o1: "prepare new_db 1 = Inr ?db1"
    by (simp add: prepare_def open_db_def new_db_def)
  have cl: "close_db ?db1 = Inr ?db2"
    by (simp add: close_db_def)
  have "user_version ?f1 = 60"
    by (rule sample_first_open [THEN conjunct1])
  then obtain db3 where o2: "prepare ?db2 2 = Inr db3"
    by (simp add: prepare_def open_db_def)
  have "open_db new_db 1 60 upgrade = Inr ?db1 \<and> close_db ?db1 = Inr ?db2
          \<and> open_db ?db2 2 60 upgrade = Inr db3"
    using o1 cl o2 by (simp add: prepare_def)
  then have same: "disk db3 = disk ?db1"
    by (rule reopen_changes_nothing [THEN conjunct1, THEN mp])
  show ?thesis
  proof (intro exI conjI)
    show "prepare new_db 1 = Inr ?db1" by (rule o1)
    show "close_db ?db1 = Inr ?db2" by (rule cl)
    show "prepare ?db2 2 = Inr db3" by (rule o2)
    show "disk db3 = disk ?db1" by (rule same)
    show "user_version (disk ?db1) = 60"
      using sample_first_open by simp
    show "map fst (tables (disk ?db1))
            = [''terms'', ''kanji'', ''tagMeta'', ''dictionaries'', ''termMeta'', ''kanjiMeta'', ''media'']"
      using sample_first_open by simp
  qed
qed

section \<open>C10: the tag fields and the sequence of a term entry\<close>

text \<open>
  C10, as the code has it. Every entry returned by \<open>findTermsBulk\<close>,
  \<open>findTermsExactBulk\<close> or \<open>findTermsBySequenceBulk\<close> comes from a stored row of the
  terms table and carries its id; \<open>termTags\<close> and \<open>rules\<close> are the empty array when the
  stored field is absent, not a string or the empty string, and the pieces between single
  spaces of a non-empty string; \<open>definitionTags\<close> is computed in the same way from the
  stored \<open>definitionTags\<close> when that is truthy and from the stored \<open>tags\<close> otherwise;
  \<open>sequence\<close> is the stored sequence when that is a number and -1 otherwise.
\<close>

theorem term_entry_tag_fields:
  assumes "findTermsBulk db termList dictionaries matchType = Inr es
         \<or> findTermsExactBulk db exactList dictionaries = Inr es
         \<or> findTermsBySequenceBulk db items = Inr es"
    and "e \<in> set es"
  shows "\<exists>t rid doc. map_of (tables (disk db)) ''terms'' = Some t \<and> (rid, doc) \<in> set (rows t)
      \<and> te_id e = Some (JNum rid)
      \<and> is_split_of (get_prop doc ''termTags'') (te_termTags e)
      \<and> is_split_of (get_prop doc ''rules'') (te_rules e)
      \<and> is_split_of (if truthy (get_prop doc ''definitionTags'') then get_prop doc ''definitionTags''
                      else get_prop doc ''tags'') (te_definitionTags e)
      \<and> te_sequence e = (case get_prop doc ''sequence'' of Some (JNum n) \<Rightarrow> n | _ \<Rightarrow> - 1)"
proof -
  have "\<exists>t rid doc ms mt i. map_of (tables (disk db)) ''terms'' = Some t \<and> (rid, doc) \<in> set (rows t)
          \<and> e = createTerm ms mt (with_id doc rid) i"
    using assms(1)
  proof (elim disjE)
    assume "findTermsBulk db termList dictionaries matchType = Inr es"
    from findMultiBulk_in_results [OF this [unfolded findTermsBulk_def findMultiBulk_def] assms(2)]
    obtain t rid doc data where
      "map_of (tables (disk db)) ''terms'' = Some t" "(rid, doc) \<in> set (rows t)"
      "createTermGeneric matchType (with_id doc rid) data = e" by auto
    then show ?thesis
      using createTermGeneric_is_createTerm [of matchType "with_id doc rid" data] by metis
  next
    assume "findTermsExactBulk db exactList dictionaries = Inr es"
    from findMultiBulk_in_results [OF this [unfolded findTermsExactBulk_def findMultiBulk_def] assms(2)]
    show ?thesis by blast
  next
    assume "findTermsBySequenceBulk db items = Inr es"
    from findMultiBulk_in_results [OF this [unfolded findTermsBySequenceBulk_def findMultiBulk_def] assms(2)]
    show ?thesis by blast
  qed
  then obtain t rid doc ms mt i where
    "map_of (tables (disk db)) ''terms'' = Some t" "(rid, doc) \<in> set (rows t)"
    "e = createTerm ms mt (with_id doc rid) i" by blast
  then show ?thesis using stored_term_fields by blast
qed

text \<open>
  The theorem at the sample store: the entry found for the first sample term, whose row
  has no \<open>definitionTags\<close>, the tags \<open>n\<close>, the term tags \<open>n v\<close>, empty rules and the
  sequence 7.
\<close>

theorem term_entry_tag_fields_witness:
  "findTermsBulk sample_db [kononeko] {dictA} Exact = Inr [sample_entry]
   \<and> (\<exists>t rid doc. map_of (tables (disk sample_db)) ''terms'' = Some t \<and> (rid, doc) \<in> set (rows t)
      \<and> te_id sample_entry = Some (JNum rid)
      \<and> is_split_of (get_prop doc ''termTags'') (te_termTags sample_entry)
      \<and> is_split_of (get_prop doc ''rules'') (te_rules sample_entry)
      \<and> is_split_of (if truthy (get_prop doc ''definitionTags'') then get_prop doc ''definitionTags''
                      else get_prop doc ''tags'') (te_definitionTags sample_entry)
      \<and> te_sequence sample_entry = (case get_prop doc ''sequence'' of Some (JNum n) \<Rightarrow> n | _ \<Rightarrow> - 1))"
proof
  show found: "findTermsBulk sample_db [kononeko] {dictA} Exact = Inr [sample_entry]"
    by (rule sample_exact_lookup)
  have mem: "sample_entry \<in> set [sample_entry]" by simp
  show "\<exists>t rid doc. map_of (tables (disk sample_db)) ''terms'' = Some t \<and> (rid, doc) \<in> set (rows t)
      \<and> te_id sample_entry = Some (JNum rid)
      \<and> is_split_of (get_prop doc ''termTags'') (te_termTags sample_entry)
      \<and> is_split_of (get_prop doc ''rules'') (te_rules sample_entry)
      \<and> is_split_of (if truthy (get_prop doc ''definitionTags'') then get_prop doc ''definitionTags''
                      else get_prop doc ''tags'') (te_definitionTags sample_entry)
      \<and> te_sequence sample_entry = (case get_prop doc ''sequence'' of Some (JNum n) \<Rightarrow> n | _ \<Rightarrow> - 1)"
    by (rule term_entry_tag_fields [OF disjI1 [OF found] mem])
qed

text \<open>
  C10 as stated fails: the first sample row stores no \<open>definitionTags\<close>, and the entry
  returned for it has the \<open>definitionTags\<close> \<open>["n"]\<close>, taken from the row's \<open>tags\<close>.
\<close>

theorem definitionTags_absent_counterexample:
  "get_prop (snd (hd sample_terms)) ''definitionTags'' = None
   \<and> findTermsBulk sample_db [kononeko] {dictA} Exact = Inr [sample_entry]
   \<and> te_definitionTags sample_entry \<noteq> []"
  using sample_exact_lookup by (simp add: sample_terms_def get_prop_def sample_entry_def)

end
